theory Spec2Isabelle
  imports Complex_Main
begin

section \<open>Python strings\<close>

text \<open>
  A Python \<open>str\<close> is modelled as a \<open>string\<close>, one \<open>char\<close> per code point, which covers the
  code points below 256. On this range the character classes are those of Python:
  whitespace (\<open>\s\<close>, \<open>str.strip\<close>, \<open>str.split\<close>) is 9 to 13, 28 to 32, 133 and 160; \<open>\d\<close>
  is the digits 0 to 9; \<open>\w\<close> is the ASCII letters, the digits, the underscore and the 71
  alphanumeric characters of Latin-1; \<open>str.lower\<close> maps A..Z and the capital letters 192
  to 222 (without the multiplication sign 215) to the letter 32 places further.
  \<open>is_alpha\<close> is the class \<open>[a-zA-Z]\<close>.
\<close>

definition ascii_lower :: string where
  "ascii_lower = ''abcdefghijklmnopqrstuvwxyz''"

definition ascii_upper :: string where
  "ascii_upper = ''ABCDEFGHIJKLMNOPQRSTUVWXYZ''"

definition ascii_digits :: string where
  "ascii_digits = ''0123456789''"

definition whitespace_chars :: string where
  "whitespace_chars = [CHR 0x09, CHR 0x0A, CHR 0x0B, CHR 0x0C, CHR 0x0D,
                       CHR 0x1C, CHR 0x1D, CHR 0x1E, CHR 0x1F, CHR 0x20, CHR 0x85, CHR 0xA0]"

definition latin1_upper :: string where
  "latin1_upper = [CHR 0xC0, CHR 0xC1, CHR 0xC2, CHR 0xC3, CHR 0xC4, CHR 0xC5, CHR 0xC6, CHR 0xC7,
                   CHR 0xC8, CHR 0xC9, CHR 0xCA, CHR 0xCB, CHR 0xCC, CHR 0xCD, CHR 0xCE, CHR 0xCF,
                   CHR 0xD0, CHR 0xD1, CHR 0xD2, CHR 0xD3, CHR 0xD4, CHR 0xD5, CHR 0xD6, CHR 0xD8,
                   CHR 0xD9, CHR 0xDA, CHR 0xDB, CHR 0xDC, CHR 0xDD, CHR 0xDE]"

definition latin1_lower :: string where
  "latin1_lower = [CHR 0xE0, CHR 0xE1, CHR 0xE2, CHR 0xE3, CHR 0xE4, CHR 0xE5, CHR 0xE6, CHR 0xE7,
                   CHR 0xE8, CHR 0xE9, CHR 0xEA, CHR 0xEB, CHR 0xEC, CHR 0xED, CHR 0xEE, CHR 0xEF,
                   CHR 0xF0, CHR 0xF1, CHR 0xF2, CHR 0xF3, CHR 0xF4, CHR 0xF5, CHR 0xF6, CHR 0xF8,
                   CHR 0xF9, CHR 0xFA, CHR 0xFB, CHR 0xFC, CHR 0xFD, CHR 0xFE]"

definition latin1_word :: string where
  "latin1_word = [CHR 0xAA, CHR 0xB2, CHR 0xB3, CHR 0xB5, CHR 0xB9, CHR 0xBA,
                  CHR 0xBC, CHR 0xBD, CHR 0xBE, CHR 0xDF, CHR 0xFF]
                 @ latin1_upper @ latin1_lower"

definition is_space :: "char \<Rightarrow> bool" where
  "is_space c = (c \<in> set whitespace_chars)"

definition is_digit :: "char \<Rightarrow> bool" where
  "is_digit c = (c \<in> set ascii_digits)"

definition is_alpha :: "char \<Rightarrow> bool" where
  "is_alpha c = (c \<in> set ascii_lower \<or> c \<in> set ascii_upper)"

definition is_word :: "char \<Rightarrow> bool" where
  "is_word c = (is_alpha c \<or> is_digit c \<or> c = CHR ''_'' \<or> c \<in> set latin1_word)"

definition lower_char :: "char \<Rightarrow> char" where
  "lower_char c =
     (case map_of (zip (ascii_upper @ latin1_upper) (ascii_lower @ latin1_lower)) c of
        Some d \<Rightarrow> d
      | None \<Rightarrow> c)"

definition upper_char :: "char \<Rightarrow> char" where
  "upper_char c = (case map_of (zip ascii_lower ascii_upper) c of Some d \<Rightarrow> d | None \<Rightarrow> c)"

definition lower :: "string \<Rightarrow> string" where
  "lower s = map lower_char s"

text \<open>\<open>s.strip()\<close>: leading and trailing whitespace removed.\<close>

definition lstrip :: "string \<Rightarrow> string" where
  "lstrip s = dropWhile is_space s"

definition rstrip :: "string \<Rightarrow> string" where
  "rstrip s = rev (dropWhile is_space (rev s))"

definition strip :: "string \<Rightarrow> string" where
  "strip s = rstrip (lstrip s)"

text \<open>\<open>s.split(c)\<close> for a one-character separator: every occurrence splits, empty pieces
  are kept, and the result always has at least one piece.\<close>

fun split_char_acc :: "char \<Rightarrow> string \<Rightarrow> string \<Rightarrow> string list" where
  "split_char_acc sep acc [] = [rev acc]"
| "split_char_acc sep acc (c # cs) =
     (if c = sep then rev acc # split_char_acc sep [] cs
      else split_char_acc sep (c # acc) cs)"

definition split_char :: "char \<Rightarrow> string \<Rightarrow> string list" where
  "split_char sep s = split_char_acc sep [] s"

text \<open>\<open>s.split('\n\n')\<close>: the separator is matched left to right without overlap.\<close>

fun split_blank_acc :: "string \<Rightarrow> string \<Rightarrow> string list" where
  "split_blank_acc acc [] = [rev acc]"
| "split_blank_acc acc [a] = [rev (a # acc)]"
| "split_blank_acc acc (a # b # cs) =
     (if a = CHR 0x0A \<and> b = CHR 0x0A then rev acc # split_blank_acc [] cs
      else split_blank_acc (a # acc) (b # cs))"

definition split_blank :: "string \<Rightarrow> string list" where
  "split_blank s = split_blank_acc [] s"

text \<open>\<open>s.split()\<close>: the maximal runs of non-whitespace characters.\<close>

fun split_ws_acc :: "string \<Rightarrow> string \<Rightarrow> string list" where
  "split_ws_acc acc [] = (if acc = [] then [] else [rev acc])"
| "split_ws_acc acc (c # cs) =
     (if is_space c then (if acc = [] then split_ws_acc [] cs else rev acc # split_ws_acc [] cs)
      else split_ws_acc (c # acc) cs)"

definition split_ws :: "string \<Rightarrow> string list" where
  "split_ws s = split_ws_acc [] s"

text \<open>\<open>sep.join(xs)\<close>.\<close>

fun join :: "string \<Rightarrow> string list \<Rightarrow> string" where
  "join sep [] = []"
| "join sep [x] = x"
| "join sep (x # y # ys) = x @ sep @ join sep (y # ys)"

text \<open>\<open>s[:k]\<close> for an integer \<open>k\<close>: a negative bound counts from the end.\<close>

definition slice_to :: "'a list \<Rightarrow> int \<Rightarrow> 'a list" where
  "slice_to xs k = (if 0 \<le> k then take (nat k) xs else take (length xs - nat (- k)) xs)"

text \<open>\<open>s[-k:]\<close> for \<open>k > 0\<close>: the last \<open>k\<close> elements, and \<open>s[:-k]\<close>: all but these.\<close>

definition last_n :: "nat \<Rightarrow> 'a list \<Rightarrow> 'a list" where
  "last_n k xs = drop (length xs - k) xs"

definition but_last_n :: "nat \<Rightarrow> 'a list \<Rightarrow> 'a list" where
  "but_last_n k xs = take (length xs - k) xs"

text \<open>\<open>needle in s\<close> and \<open>s.count(needle)\<close> (occurrences without overlap) for a
  non-empty needle; \<open>s.startswith(p)\<close> is \<open>prefix\<close>.\<close>

fun is_prefix :: "string \<Rightarrow> string \<Rightarrow> bool" where
  "is_prefix [] s = True"
| "is_prefix (p # ps) [] = False"
| "is_prefix (p # ps) (c # cs) = (p = c \<and> is_prefix ps cs)"

fun contains :: "string \<Rightarrow> string \<Rightarrow> bool" where
  "contains s needle =
     (is_prefix needle s \<or> (case s of [] \<Rightarrow> False | c # cs \<Rightarrow> contains cs needle))"

function count_sub :: "string \<Rightarrow> string \<Rightarrow> nat" where
  "count_sub s needle =
     (if needle = [] then length s + 1
      else case s of
        [] \<Rightarrow> 0
      | c # cs \<Rightarrow> (if is_prefix needle s then 1 + count_sub (drop (length needle) s) needle
                   else count_sub cs needle))"
  by pat_completeness auto
termination
  by (relation "measure (\<lambda>(s, needle). length s)") auto

text \<open>\<open>str(n)\<close> for a natural number.\<close>

fun digit_char :: "nat \<Rightarrow> char" where
  "digit_char n = ascii_digits ! (n mod 10)"

function str_nat :: "nat \<Rightarrow> string" where
  "str_nat n = (if n < 10 then [digit_char n] else str_nat (n div 10) @ [digit_char n])"
  by pat_completeness auto
termination
  by (relation "measure id") auto

section \<open>Short-form thread generation (social\_media\_generator.py)\<close>

subsection \<open>The three regular expressions of \<open>parse_twitter_thread\<close>\<close>

text \<open>\<open>re.match(r'\d+[/\.]', line)\<close>: one or more digits, then a slash or a dot. The
  digits are matched greedily and a shorter run is followed by a digit, so the match
  is decided by the character after the maximal run.\<close>

definition match_numbering :: "string \<Rightarrow> bool" where
  "match_numbering line =
     (takeWhile is_digit line \<noteq> [] \<and>
      (case dropWhile is_digit line of [] \<Rightarrow> False | c # _ \<Rightarrow> c \<in> set ''/.''))"

text \<open>\<open>re.match(r'Tweet \d+:', line)\<close>.\<close>

definition match_tweet_label :: "string \<Rightarrow> bool" where
  "match_tweet_label line =
     (is_prefix ''Tweet '' line \<and>
      (let r = drop 6 line in
       takeWhile is_digit r \<noteq> [] \<and>
       (case dropWhile is_digit r of [] \<Rightarrow> False | c # _ \<Rightarrow> c = CHR '':'')))"

text \<open>\<open>re.match(r'\n\n', line)\<close>.\<close>

definition match_blank :: "string \<Rightarrow> bool" where
  "match_blank line = is_prefix [CHR 0x0A, CHR 0x0A] line"

text \<open>\<open>re.sub(r'^\d+[/\.\)]\s*', '', line)\<close>: the pattern is anchored at the start, so it
  replaces at most once.\<close>

definition sub_numbering :: "string \<Rightarrow> string" where
  "sub_numbering line =
     (if takeWhile is_digit line = [] then line
      else case dropWhile is_digit line of
        [] \<Rightarrow> line
      | c # cs \<Rightarrow> (if c \<in> set ''/.)'' then dropWhile is_space cs else line))"

text \<open>\<open>re.sub(r'^Tweet \d+:\s*', '', line)\<close>.\<close>

definition sub_tweet_label :: "string \<Rightarrow> string" where
  "sub_tweet_label line =
     (if \<not> is_prefix ''Tweet '' line then line
      else let r = drop 6 line in
        if takeWhile is_digit r = [] then line
        else case dropWhile is_digit r of
          [] \<Rightarrow> line
        | c # cs \<Rightarrow> (if c = CHR '':'' then dropWhile is_space cs else line))"

subsection \<open>\<open>parse_twitter_thread\<close>\<close>

text \<open>The state of the loop over the lines: the tweets appended so far and
  \<open>current_tweet\<close>.\<close>

definition thread_line :: "string list \<times> string \<Rightarrow> string \<Rightarrow> string list \<times> string" where
  "thread_line st raw =
     (let tweets = fst st; current_tweet = snd st; line = strip raw in
      if line = [] then st
      else
        let is_new_tweet = (match_numbering line \<or> match_tweet_label line \<or> match_blank line);
            line' = (if is_new_tweet then sub_tweet_label (sub_numbering line) else line)
        in if is_new_tweet \<and> current_tweet \<noteq> []
           then (tweets @ [strip current_tweet], line')
           else (tweets, current_tweet @ '' '' @ line'))"

definition parse_twitter_thread :: "string \<Rightarrow> string list" where
  "parse_twitter_thread thread_text =
     (let st = foldl thread_line ([], []) (split_char (CHR 0x0A) thread_text);
          tweets = (if snd st \<noteq> [] then fst st @ [strip (snd st)] else fst st);
          tweets' = (if length tweets = 0
                     then [strip t. t \<leftarrow> split_blank thread_text, strip t \<noteq> []]
                     else tweets)
      in take 6 tweets')"

subsection \<open>\<open>truncate_tweet\<close>\<close>

definition truncate_tweet :: "string \<Rightarrow> int \<Rightarrow> string" where
  "truncate_tweet tweet max_length =
     (if int (length tweet) \<le> max_length then tweet
      else slice_to tweet (max_length - 3) @ ''...'')"

subsection \<open>\<open>generate_twitter_thread\<close>\<close>

text \<open>The completion call is a function from the request (the context strings that the
  prompt is built from) to the text of the first choice; \<open>None\<close> stands for a call that
  raises. \<open>created_at\<close> is the clock reading passed in.\<close>

record thread_request =
  req_content :: string
  req_articles :: string
  req_trends :: string
  req_tone :: string

record thread_result =
  platform :: string
  posts :: "string list"
  full_text :: string
  char_counts :: "nat list"
  created_at :: string

definition generate_twitter_thread ::
  "(thread_request \<Rightarrow> string option) \<Rightarrow> string \<Rightarrow> string \<Rightarrow> string \<Rightarrow> string \<Rightarrow> string
     \<Rightarrow> string + thread_result" where
  "generate_twitter_thread client now content articles trends tone =
     (case client \<lparr>req_content = take 500 content, req_articles = articles,
                    req_trends = trends, req_tone = tone\<rparr> of
        None \<Rightarrow> Inl ''error''
      | Some thread_text \<Rightarrow>
          (let tweets = parse_twitter_thread thread_text;
               tweets' = [truncate_tweet t 280. t \<leftarrow> tweets]
           in Inr \<lparr>platform = ''twitter'', posts = tweets', full_text = thread_text,
                   char_counts = map length tweets', created_at = now\<rparr>))"

section \<open>Content aggregation (content\_aggregator.py)\<close>

text \<open>An Article is the dictionary that every constructor of the aggregator builds with
  the keys \<open>title\<close>, \<open>link\<close>, \<open>summary\<close>, \<open>published\<close>, \<open>author\<close>, \<open>source\<close> and
  \<open>tags\<close>; \<open>engagement\<close> is present on short-form posts only. With these keys always
  set, \<open>article.get(k, default)\<close> and \<open>article[k]\<close> both read the field.\<close>

record article =
  title :: string
  link :: string
  summary :: string
  published :: string
  author :: string
  source :: string
  tags :: "string list"
  engagement :: "(string \<times> nat) list option"

subsection \<open>\<open>clean_html\<close>\<close>

text \<open>\<open>re.sub(r'<[^>]+>', '', s)\<close>: a tag starts at a \<open><\<close> that is followed by at least
  one character other than \<open>>\<close> and then by a \<open>>\<close>; it ends at the first \<open>>\<close>.\<close>

definition not_gt :: "char \<Rightarrow> bool" where
  "not_gt c = (c \<noteq> CHR ''>'')"

function strip_tags :: "string \<Rightarrow> string" where
  "strip_tags [] = []"
| "strip_tags (c # cs) =
     (if c = CHR ''<'' \<and> takeWhile not_gt cs \<noteq> [] \<and> dropWhile not_gt cs \<noteq> []
      then strip_tags (tl (dropWhile not_gt cs))
      else c # strip_tags cs)"
  by pat_completeness auto
termination
  by (relation "measure length")
     (auto intro: le_imp_less_Suc order_trans [OF diff_le_self length_dropWhile_le])

text \<open>\<open>re.sub(r'\s+', ' ', s)\<close>: every maximal run of whitespace becomes one space.\<close>

function collapse_ws :: "string \<Rightarrow> string" where
  "collapse_ws [] = []"
| "collapse_ws (c # cs) =
     (if is_space c then CHR '' '' # collapse_ws (dropWhile is_space cs)
      else c # collapse_ws cs)"
  by pat_completeness auto
termination
  by (relation "measure length") (auto intro: le_imp_less_Suc length_dropWhile_le)

definition clean_html :: "string \<Rightarrow> string" where
  "clean_html html_content =
     (if html_content = [] then []
      else
        let clean_text = strip (collapse_ws (strip_tags html_content))
        in if length clean_text > 300 then take 300 clean_text @ ''...'' else clean_text)"

text \<open>The strings without a tag, and the strings whose whitespace is collapsed: each
  whitespace character is a single blank that is followed by a character that is no
  whitespace. The proofs show that \<open>clean_html\<close> returns such strings.\<close>

fun tag_free :: "string \<Rightarrow> bool" where
  "tag_free [] = True"
| "tag_free (c # cs) =
     ((if c = CHR ''<'' then takeWhile not_gt cs = [] \<or> dropWhile not_gt cs = [] else True)
      \<and> tag_free cs)"

definition starts_nonspace :: "string \<Rightarrow> bool" where
  "starts_nonspace s = (case s of [] \<Rightarrow> True | d # _ \<Rightarrow> \<not> is_space d)"

fun ws_norm :: "string \<Rightarrow> bool" where
  "ws_norm [] = True"
| "ws_norm (c # cs) =
     ((if is_space c then c = CHR '' '' \<and> starts_nonspace cs else True) \<and> ws_norm cs)"

subsection \<open>\<open>clean_title_for_comparison\<close> and \<open>remove_duplicate_articles\<close>\<close>

text \<open>\<open>re.sub(r'[^\w\s]', '', title.lower())\<close> keeps the word and whitespace characters;
  the first five whitespace-separated words are joined by single spaces.\<close>

definition clean_title_for_comparison :: "string \<Rightarrow> string" where
  "clean_title_for_comparison t =
     join '' '' (take 5 (split_ws (filter (\<lambda>c. is_word c \<or> is_space c) (lower t))))"

definition unique_key :: "article \<Rightarrow> string" where
  "unique_key a =
     (let title_key = clean_title_for_comparison (title a)
      in if link a \<noteq> [] then link a else title_key @ ''|'' @ source a)"

text \<open>One iteration of the loop, on the pair of \<open>unique_articles\<close> and \<open>seen_keys\<close>.\<close>

definition dedup_step :: "article list \<times> string set \<Rightarrow> article \<Rightarrow> article list \<times> string set" where
  "dedup_step st a =
     (let unique_articles = fst st; seen_keys = snd st; k = unique_key a
      in if k \<notin> seen_keys then (unique_articles @ [a], insert k seen_keys) else st)"

definition remove_duplicate_articles :: "article list \<Rightarrow> article list" where
  "remove_duplicate_articles articles = fst (foldl dedup_step ([], {}) articles)"

text \<open>What the loop keeps of a list when the keys in \<open>seen\<close> were met before it; the
  proofs relate the loop to this function.\<close>

fun dedup_from :: "string set \<Rightarrow> article list \<Rightarrow> article list" where
  "dedup_from seen [] = []"
| "dedup_from seen (a # as) =
     (if unique_key a \<notin> seen then a # dedup_from (insert (unique_key a) seen) as
      else dedup_from seen as)"

subsection \<open>\<open>extract_keywords_from_text\<close>\<close>

definition stop_words :: "string list" where
  "stop_words =
     [''the'', ''a'', ''an'', ''and'', ''or'', ''but'', ''in'', ''on'', ''at'', ''to'', ''for'', ''of'', ''with'',
      ''by'', ''is'', ''are'', ''was'', ''were'', ''be'', ''been'', ''have'', ''has'', ''had'', ''do'', ''does'',
      ''did'', ''will'', ''would'', ''could'', ''should'', ''may'', ''might'', ''can'', ''this'', ''that'',
      ''these'', ''those'', ''i'', ''you'', ''he'', ''she'', ''it'', ''we'', ''they'', ''new'', ''more'', ''most'',
      ''also'', ''get'', ''go'', ''make'', ''see'', ''know'', ''think'', ''take'', ''come'', ''say'', ''use'']"

text \<open>\<open>re.findall(r'\b[a-zA-Z]{3,}\b', s)\<close>, scanning left to right; the flag says whether
  the character before the current position is a word character. A match starts where
  the previous character is no word character, takes the maximal run of letters (a
  shorter run ends before a letter, where there is no word boundary), and needs at least
  three letters and no word character after the run. After a match the scan resumes at
  its end, otherwise one character further.\<close>

function findall_words :: "bool \<Rightarrow> string \<Rightarrow> string list" where
  "findall_words prev [] = []"
| "findall_words prev (c # cs) =
     (let run = takeWhile is_alpha (c # cs); rest = dropWhile is_alpha (c # cs)
      in if \<not> prev \<and> 3 \<le> length run \<and> (case rest of [] \<Rightarrow> True | d # _ \<Rightarrow> \<not> is_word d)
         then run # findall_words True rest
         else findall_words (is_word c) cs)"
  by pat_completeness auto
termination
  by (relation "measure (\<lambda>(prev, s). length s)")
     (auto simp: less_Suc_eq_le length_dropWhile_le split: if_splits)

text \<open>A \<open>Counter\<close> keeps its keys in the order of first insertion.\<close>

fun counter_add :: "(string \<times> nat) list \<Rightarrow> string \<Rightarrow> (string \<times> nat) list" where
  "counter_add [] w = [(w, 1)]"
| "counter_add ((k, n) # kvs) w =
     (if k = w then (k, n + 1) # kvs else (k, n) # counter_add kvs w)"

definition Counter :: "string list \<Rightarrow> (string \<times> nat) list" where
  "Counter ws = foldl counter_add [] ws"

text \<open>\<open>Counter.most_common(n)\<close>: the \<open>n\<close> largest counts, equal counts in the order first
  encountered; nothing for \<open>n \<le> 0\<close>.\<close>

definition most_common :: "(string \<times> nat) list \<Rightarrow> int \<Rightarrow> (string \<times> nat) list" where
  "most_common kvs n = take (nat n) (sort_key (\<lambda>kv. - int (snd kv)) kvs)"

definition extract_keywords_from_text :: "string \<Rightarrow> (string \<times> nat) list" where
  "extract_keywords_from_text text =
     (let words = findall_words False (lower text);
          filtered_words = [word \<leftarrow> words. word \<notin> set stop_words]
      in Counter filtered_words)"

subsection \<open>\<open>extract_trends\<close>\<close>

text \<open>\<open>s.title()\<close>: a cased letter is upper-cased after an uncased character and
  lower-cased after a cased one. It is applied to keywords only, which are made of the
  letters a to z, so the cased letters are taken to be the ASCII letters.\<close>

fun title_from :: "bool \<Rightarrow> string \<Rightarrow> string" where
  "title_from prev_cased [] = []"
| "title_from prev_cased (c # cs) =
     (if is_alpha c
      then (if prev_cased then lower_char c else upper_char c) # title_from True cs
      else c # title_from False cs)"

definition title_case :: "string \<Rightarrow> string" where
  "title_case s = title_from False s"

text \<open>The loop of \<open>find_representative_article\<close> on the pair of \<open>best_article\<close> and
  \<open>best_score\<close>.\<close>

definition article_score :: "string \<Rightarrow> article \<Rightarrow> nat" where
  "article_score keyword a =
     (let t = lower (title a); s = lower (summary a); content = t @ '' '' @ s;
          score = count_sub content (lower keyword)
      in if contains t (lower keyword) then score + 2 else score)"

definition representative_step :: "string \<Rightarrow> article option \<times> nat \<Rightarrow> article \<Rightarrow> article option \<times> nat" where
  "representative_step keyword st a =
     (let score = article_score keyword a
      in if score > snd st then (Some a, score) else st)"

definition find_representative_article :: "article list \<Rightarrow> string \<Rightarrow> article option" where
  "find_representative_article articles keyword =
     fst (foldl (representative_step keyword) (None, 0) articles)"

definition generate_trend_explanation :: "string \<Rightarrow> nat \<Rightarrow> article list \<Rightarrow> string" where
  "generate_trend_explanation keyword frequency articles =
     [CHR 0x27] @ title_case keyword @ [CHR 0x27] @ '' appears frequently across '' @
     str_nat frequency @ '' recent articles, indicating growing interest in this topic.''"

record trend =
  trend_title :: string
  explainer :: string
  source_link :: string
  frequency :: nat
  related_articles :: "article list"

definition make_trend :: "article list \<Rightarrow> string \<times> nat \<Rightarrow> trend" where
  "make_trend articles kc =
     (let keyword = fst kc; count = snd kc;
          representative_article = find_representative_article articles keyword
      in \<lparr>trend_title = title_case keyword,
          explainer = generate_trend_explanation keyword count articles,
          source_link = (case representative_article of Some a \<Rightarrow> link a | None \<Rightarrow> ''#''),
          frequency = count,
          related_articles =
            take 3 [a \<leftarrow> articles. contains (lower (title a @ '' '' @ summary a)) (lower keyword)]\<rparr>)"

definition all_text :: "article list \<Rightarrow> string" where
  "all_text articles = join '' '' (concat [[title a, summary a]. a \<leftarrow> articles])"

definition extract_trends :: "article list \<Rightarrow> int \<Rightarrow> trend list" where
  "extract_trends articles max_trends =
     (if articles = [] then []
      else
        let keywords = extract_keywords_from_text (all_text articles)
        in [make_trend articles kc. kc \<leftarrow> most_common keywords max_trends,
                                    length (fst kc) > 3 \<and> snd kc > 1])"

text \<open>The keywords that \<open>extract_trends\<close> counts, and their ranking: the counter of
  the keywords sorted by falling count, equal counts in the order first encountered.
  \<open>most_common\<close> takes a prefix of it.\<close>

definition keywords_of :: "article list \<Rightarrow> string list" where
  "keywords_of articles =
     [word \<leftarrow> findall_words False (lower (all_text articles)). word \<notin> set stop_words]"

definition keyword_ranking :: "article list \<Rightarrow> (string \<times> nat) list" where
  "keyword_ranking articles = sort_key (\<lambda>kv. - int (snd kv)) (Counter (keywords_of articles))"

section \<open>Tone indicators (style\_trainer.py)\<close>

text \<open>Each tone pattern is a literal with an optional \<open>\b\<close> before and after it: the
  triple says whether the pattern starts with \<open>\b\<close>, gives the literal, and says whether
  it ends with \<open>\b\<close>.\<close>

type_synonym tone_pattern = "bool \<times> string \<times> bool"

definition tone_patterns :: "(string \<times> tone_pattern list) list" where
  "tone_patterns =
     [(''casual'', [(True, ''you'', True), (True, ''your'', True), (False, ''let'' @ [CHR 0x27] @ ''s'', False),
                    (True, ''guy'', False), (True, ''folks'', True), (True, ''hey'', True)]),
      (''professional'', [(True, ''moreover'', True), (True, ''therefore'', True),
                          (True, ''however'', True), (True, ''furthermore'', True)]),
      (''enthusiastic'', [(False, ''!'', False), (True, ''amazing'', True), (True, ''exciting'', True),
                          (True, ''incredible'', True), (True, ''love'', True)]),
      (''analytical'', [(True, ''data'', True), (True, ''analysis'', True), (True, ''research'', True),
                        (True, ''study'', True), (True, ''shows'', True)])]"

text \<open>\<open>\b\<close> holds between two positions exactly when one of the two neighbouring
  characters is a word character and the other is not (the ends of the text count as
  no word character). \<open>is_word_at\<close> reads the first character of the rest.\<close>

definition is_word_at :: "string \<Rightarrow> bool" where
  "is_word_at s = (case s of [] \<Rightarrow> False | c # _ \<Rightarrow> is_word c)"

text \<open>\<open>len(re.findall(pattern, text))\<close>: the matches are counted left to right without
  overlap; the flag says whether the character before the current position is a word
  character.\<close>

function count_matches :: "tone_pattern \<Rightarrow> bool \<Rightarrow> string \<Rightarrow> nat" where
  "count_matches p prev [] = 0"
| "count_matches p prev (c # cs) =
     (let lit = fst (snd p); after = drop (length lit) (c # cs)
      in if lit \<noteq> [] \<and> is_prefix lit (c # cs)
            \<and> (if fst p then prev \<noteq> is_word (hd lit) else True)
            \<and> (if snd (snd p) then is_word (last lit) \<noteq> is_word_at after else True)
         then 1 + count_matches p (is_word (last lit)) after
         else count_matches p (is_word c) cs)"
  by pat_completeness auto
termination
  by (relation "measure (\<lambda>(p, prev, s). length s)") auto

text \<open>\<open>max(tone_scores, key=tone_scores.get)\<close>: the first key, in insertion order, whose
  score is maximal.\<close>

fun max_by_score :: "string \<times> nat \<Rightarrow> (string \<times> nat) list \<Rightarrow> string \<times> nat" where
  "max_by_score best [] = best"
| "max_by_score best (kv # kvs) = max_by_score (if snd kv > snd best then kv else best) kvs"

record tone_result =
  dominant_tone :: string
  scores :: "(string \<times> nat) list"

definition detect_tone_indicators :: "string \<Rightarrow> tone_result" where
  "detect_tone_indicators text =
     (let text_lower = lower text;
          tone_scores = [(fst tp, sum_list [count_matches pat False text_lower. pat \<leftarrow> snd tp]).
                         tp \<leftarrow> tone_patterns]
      in case tone_scores of
           kv # kvs \<Rightarrow> \<lparr>dominant_tone = fst (max_by_score kv kvs), scores = tone_scores\<rparr>
         | [] \<Rightarrow> \<lparr>dominant_tone = ''neutral'', scores = []\<rparr>)"

section \<open>The backend tables\<close>

text \<open>The hosted backend is a store of tables; a row is a record of its columns, a
  nullable column an \<open>option\<close>. Timestamps are seconds on the clock that is passed to
  every operation as \<open>now\<close>. \<open>failing\<close> lists the tables on which a request raises;
  \<open>get_supabase_client()\<close> returns \<open>None\<close> when the client is not configured.\<close>

record newsletter_row =
  nl_id :: string
  nl_user_id :: string
  nl_title :: string
  nl_content :: string
  nl_status :: string
  nl_created_at :: int
  nl_accepted_at :: "int option"
  nl_sent_at :: "int option"

record diff_summary =
  lines_added :: nat
  lines_deleted :: nat
  original_word_count :: nat
  edited_word_count :: nat
  edit_ratio :: rat

record feedback_row =
  fb_newsletter_id :: string
  fb_user_id :: string
  fb_reaction :: string
  fb_created_at :: int
  fb_edit_diff :: "diff_summary option"
  fb_was_edited :: bool

record metric_row =
  m_newsletter_id :: string
  m_metric_type :: string
  m_value :: rat
  m_recorded_at :: int

record source_row =
  src_id :: string
  src_user_id :: string
  src_url :: string
  src_type :: string
  src_active :: "bool option"
  src_created_at :: int

record schedule_row =
  sd_user_id :: string
  sd_schedule_time :: "string option"
  sd_delivery_method :: string
  sd_is_active :: "bool option"

record db =
  newsletters :: "newsletter_row list"
  newsletter_feedback :: "feedback_row list"
  newsletter_metrics :: "metric_row list"
  user_sources :: "source_row list"
  scheduled_deliveries :: "schedule_row list"
  failing :: "string list"

type_synonym backend = "db option"

definition raises :: "db \<Rightarrow> string \<Rightarrow> bool" where
  "raises d table = (table \<in> set (failing d))"

text \<open>\<open>round(x, ndigits)\<close>, to the nearest multiple of \<open>10 ^ -ndigits\<close>, ties to the even
  one. The \<open>float\<close> values of the source are rational numbers here.\<close>

definition round_half_even :: "rat \<Rightarrow> int" where
  "round_half_even x =
     (let f = \<lfloor>x\<rfloor>; d = x - of_int f
      in if d < 1 / 2 then f else if d > 1 / 2 then f + 1 else if even f then f else f + 1)"

definition py_round :: "rat \<Rightarrow> nat \<Rightarrow> rat" where
  "py_round x ndigits = of_int (round_half_even (x * 10 ^ ndigits)) / 10 ^ ndigits"

section \<open>The CRUD facade (models.py)\<close>

text \<open>\<open>.order("created_at", desc=True)\<close>: rows with equal timestamps keep their order.\<close>

definition fetch_newsletters :: "backend \<Rightarrow> string \<Rightarrow> newsletter_row list" where
  "fetch_newsletters supabase user_id =
     (case supabase of
        None \<Rightarrow> []
      | Some d \<Rightarrow>
          if raises d ''newsletters'' then []
          else sort_key (\<lambda>n. - nl_created_at n) [n \<leftarrow> newsletters d. nl_user_id n = user_id])"

text \<open>\<open>update_newsletter\<close>: the column assignments of \<open>updates\<close> are a function on rows.
  The result is the returned flag and the backend after the call.\<close>

definition update_newsletter ::
  "backend \<Rightarrow> string \<Rightarrow> (newsletter_row \<Rightarrow> newsletter_row) \<Rightarrow> string \<Rightarrow> bool \<times> backend" where
  "update_newsletter supabase newsletter_id updates user_id =
     (case supabase of
        None \<Rightarrow> (False, None)
      | Some d \<Rightarrow>
          if raises d ''newsletters'' then (False, Some d)
          else
            let hit = (\<lambda>n. nl_id n = newsletter_id \<and> nl_user_id n = user_id)
            in (filter hit (newsletters d) \<noteq> [],
                Some (d\<lparr>newsletters := [if hit n then updates n else n. n \<leftarrow> newsletters d]\<rparr>)))"

definition get_user_sources :: "backend \<Rightarrow> string \<Rightarrow> source_row list" where
  "get_user_sources supabase user_id =
     (case supabase of
        None \<Rightarrow> []
      | Some d \<Rightarrow>
          if raises d ''user_sources'' then []
          else sort_key (\<lambda>s. - src_created_at s)
                 [s \<leftarrow> user_sources d. src_user_id s = user_id \<and> src_active s = Some True])"

record user_stats =
  total_newsletters :: nat
  draft_newsletters :: nat
  published_newsletters :: nat
  total_sources :: nat
  active_sources :: nat
  last_newsletter_date :: "int option"

text \<open>\<open>get_user_stats\<close> returns the empty dictionary, here \<open>None\<close>, without a client.
  \<open>s.get('active', True)\<close> reads the column, and a null is not true.\<close>

definition get_user_stats :: "backend \<Rightarrow> string \<Rightarrow> user_stats option" where
  "get_user_stats supabase user_id =
     (case supabase of
        None \<Rightarrow> None
      | Some d \<Rightarrow>
          let newsletters' = fetch_newsletters supabase user_id;
              sources = get_user_sources supabase user_id
          in Some \<lparr>total_newsletters = length newsletters',
                   draft_newsletters = length [n \<leftarrow> newsletters'. nl_status n = ''draft''],
                   published_newsletters = length [n \<leftarrow> newsletters'. nl_status n = ''published''],
                   total_sources = length sources,
                   active_sources = length [s \<leftarrow> sources. src_active s = Some True],
                   last_newsletter_date =
                     (case newsletters' of [] \<Rightarrow> None | n # _ \<Rightarrow> Some (nl_created_at n))\<rparr>)"

section \<open>Feedback and analytics (feedback\_system.py)\<close>

subsection \<open>\<open>calculate_diff_summary\<close> and \<open>record_feedback\<close>\<close>

text \<open>\<open>difflib.unified_diff\<close> is the library's; it is a parameter of the model.\<close>

definition calculate_diff_summary ::
  "(string list \<Rightarrow> string list \<Rightarrow> string list) \<Rightarrow> string \<Rightarrow> string \<Rightarrow> diff_summary" where
  "calculate_diff_summary unified_diff original edited =
     (let original_lines = split_char (CHR 0x0A) original;
          edited_lines = split_char (CHR 0x0A) edited;
          diff = unified_diff original_lines edited_lines;
          additions = length [l \<leftarrow> diff. is_prefix ''+'' l \<and> \<not> is_prefix ''+++'' l];
          deletions = length [l \<leftarrow> diff. is_prefix ''-'' l \<and> \<not> is_prefix ''---'' l];
          original_words = length (split_ws original);
          edited_words = length (split_ws edited)
      in \<lparr>lines_added = additions, lines_deleted = deletions,
          original_word_count = original_words, edited_word_count = edited_words,
          edit_ratio = py_round (\<bar>of_nat edited_words - of_nat original_words\<bar>
                                 / of_nat (max original_words 1)) 2\<rparr>)"

text \<open>\<open>record_feedback\<close>: the insert into \<open>newsletter_feedback\<close> returns the inserted row,
  so \<open>bool(response.data)\<close> is true; any exception gives \<open>False\<close> and leaves what was
  written before it.\<close>

definition record_feedback ::
  "backend \<Rightarrow> (string list \<Rightarrow> string list \<Rightarrow> string list) \<Rightarrow> int \<Rightarrow> string \<Rightarrow> string \<Rightarrow> string
     \<Rightarrow> string option \<Rightarrow> string option \<Rightarrow> bool \<times> backend" where
  "record_feedback supabase unified_diff now newsletter_id user_id reaction edited_content original_content =
     (case supabase of
        None \<Rightarrow> (False, None)
      | Some d \<Rightarrow>
          let edited = (case (edited_content, original_content) of
                          (Some e, Some orig) \<Rightarrow>
                            (if e \<noteq> [] \<and> orig \<noteq> []
                             then Some (calculate_diff_summary unified_diff orig e) else None)
                        | _ \<Rightarrow> None);
              feedback_data = \<lparr>fb_newsletter_id = newsletter_id, fb_user_id = user_id,
                               fb_reaction = reaction, fb_created_at = now,
                               fb_edit_diff = edited, fb_was_edited = (edited \<noteq> None)\<rparr>
          in if raises d ''newsletter_feedback'' then (False, Some d)
             else
               let d1 = d\<lparr>newsletter_feedback := newsletter_feedback d @ [feedback_data]\<rparr>
               in if reaction \<in> set [''accepted'', ''thumbs_up'']
                  then (if raises d1 ''newsletters'' then (False, Some d1)
                        else (True, Some (d1\<lparr>newsletters :=
                                [if nl_id n = newsletter_id
                                 then n\<lparr>nl_status := ''accepted'', nl_accepted_at := Some now\<rparr>
                                 else n. n \<leftarrow> newsletters d1]\<rparr>)))
                  else (True, Some d1))"

subsection \<open>\<open>get_engagement_analytics\<close>\<close>

record analytics =
  avg_open_rate :: rat
  avg_click_rate :: rat
  total_sent :: "nat option"
  trend :: string

definition no_data :: analytics where
  "no_data = \<lparr>avg_open_rate = 0, avg_click_rate = 0, total_sent = None, trend = ''no_data''\<rparr>"

text \<open>The newsletters of the user in the window, and the metrics of these newsletters.\<close>

definition window_newsletters :: "db \<Rightarrow> int \<Rightarrow> string \<Rightarrow> int \<Rightarrow> newsletter_row list" where
  "window_newsletters d now user_id days =
     (let since_date = now - days * 86400
      in [n \<leftarrow> newsletters d. nl_user_id n = user_id \<and> nl_created_at n \<ge> since_date])"

definition window_metrics :: "db \<Rightarrow> string list \<Rightarrow> metric_row list" where
  "window_metrics d newsletter_ids =
     [m \<leftarrow> newsletter_metrics d. m_newsletter_id m \<in> set newsletter_ids]"

definition rates :: "string \<Rightarrow> metric_row list \<Rightarrow> rat list" where
  "rates metric_type metrics = [m_value m. m \<leftarrow> metrics, m_metric_type m = metric_type]"

definition average1 :: "rat list \<Rightarrow> rat" where
  "average1 xs = (if xs \<noteq> [] then py_round (sum_list xs / of_nat (length xs)) 1 else 0)"

definition classify_trend :: "rat list \<Rightarrow> string" where
  "classify_trend open_rates =
     (if length open_rates \<ge> 2
      then
        let recent = last_n 3 open_rates;
            recent_avg = sum_list recent / of_nat (min (length recent) 3);
            older = but_last_n 3 open_rates;
            older_avg = (if length open_rates > 3
                         then sum_list older / of_nat (max (length older) 1) else recent_avg)
        in if recent_avg > older_avg * (11 / 10) then ''improving''
           else if recent_avg < older_avg * (9 / 10) then ''declining''
           else ''stable''
      else ''stable'')"

definition get_engagement_analytics :: "backend \<Rightarrow> int \<Rightarrow> string \<Rightarrow> int \<Rightarrow> analytics option" where
  "get_engagement_analytics supabase now user_id days =
     (case supabase of
        None \<Rightarrow> None
      | Some d \<Rightarrow>
          if raises d ''newsletters'' then None
          else
            let ns = window_newsletters d now user_id days
            in if ns = [] then Some no_data
               else
                 let newsletter_ids = map nl_id ns
                 in if raises d ''newsletter_metrics'' then None
                    else
                      let metrics = window_metrics d newsletter_ids
                      in if metrics = [] then Some no_data
                         else
                           let open_rates = rates ''open_rate'' metrics;
                               click_rates = rates ''click_rate'' metrics
                           in Some \<lparr>avg_open_rate = average1 open_rates,
                                    avg_click_rate = average1 click_rates,
                                    total_sent = Some (length newsletter_ids),
                                    trend = classify_trend open_rates\<rparr>)"

section \<open>The scheduler (scheduler\_service.py and the background thread of app.py)\<close>

text \<open>The wall clock is read as hour and minute; \<open>strftime('%H:%M')\<close> pads both to two
  digits.\<close>

record clock =
  hour :: nat
  minute :: nat

definition pad2 :: "nat \<Rightarrow> string" where
  "pad2 n = (if n < 10 then ''0'' @ str_nat n else str_nat n)"

definition strftime_HM :: "clock \<Rightarrow> string" where
  "strftime_HM c = pad2 (hour c) @ '':'' @ pad2 (minute c)"

text \<open>What one tick does with each row it looks at: \<open>Triggered\<close> is the call of newsletter
  generation and delivery for the row's user (a call that catches its own exceptions),
  \<open>Skipped\<close> the branch that only logs. Slicing a null \<open>schedule_time\<close> raises, and the
  handler around the loop ends the tick.\<close>

datatype sched_event = Triggered string schedule_row | Skipped schedule_row

fun check_schedules :: "string \<Rightarrow> schedule_row list \<Rightarrow> sched_event list" where
  "check_schedules current_time [] = []"
| "check_schedules current_time (schedule_data # rest) =
     (case sd_schedule_time schedule_data of
        None \<Rightarrow> []
      | Some t \<Rightarrow>
          let schedule_time = take 5 t
          in if schedule_time = current_time
             then Triggered (sd_user_id schedule_data) schedule_data # check_schedules current_time rest
             else Skipped schedule_data # check_schedules current_time rest)"

definition active_schedules :: "db \<Rightarrow> schedule_row list" where
  "active_schedules d = [r \<leftarrow> scheduled_deliveries d. sd_is_active r = Some True]"

text \<open>\<open>check_and_send_scheduled_newsletters\<close> of scheduler\_service.py.\<close>

definition check_and_send_scheduled_newsletters :: "backend \<Rightarrow> clock \<Rightarrow> sched_event list" where
  "check_and_send_scheduled_newsletters supabase clk =
     (case supabase of
        None \<Rightarrow> []
      | Some d \<Rightarrow>
          if raises d ''scheduled_deliveries'' then []
          else
            let schedules = active_schedules d
            in if schedules = [] then []
               else let current_time = strftime_HM clk in check_schedules current_time schedules)"

text \<open>\<open>check_and_send_scheduled\<close> of \<open>background_scheduler\<close> in app.py: the clock is read
  before the query.\<close>

definition check_and_send_scheduled :: "backend \<Rightarrow> clock \<Rightarrow> sched_event list" where
  "check_and_send_scheduled supabase clk =
     (case supabase of
        None \<Rightarrow> []
      | Some d \<Rightarrow>
          let current_time = strftime_HM clk
          in if raises d ''scheduled_deliveries'' then []
             else
               let data = active_schedules d
               in if data = [] then [] else check_schedules current_time data)"

section \<open>Newsletter generation (draft\_generator.py)\<close>

subsection \<open>The HTML template\<close>





definition articles_html_open :: \<open>string\<close> where
  \<open>articles_html_open =
     [CHR 0x0A] @
     ''            <section style="padding: 20px 0;">'' @ [CHR 0x0A] @
     ''                <h2 style="color: #1e293b; margin-bottom: 20px; font-size: 22px; border-bottom: 2px solid #e2e8f0; padding-bottom: 10px;">'' @ [CHR 0xF0, CHR 0x9F, CHR 0x93, CHR 0xB0] @ '' Today'' @ [CHR 0x27] @ ''s Top Stories</h2>'' @ [CHR 0x0A] @
     ''        ''\<close>

definition articles_html_item :: \<open>nat \<Rightarrow> article \<Rightarrow> string \<Rightarrow> string\<close> where
  \<open>articles_html_item i a s =
     [CHR 0x0A] @
     ''                <article style="margin-bottom: 25px; padding-bottom: 20px; border-bottom: 1px solid #e2e8f0;">'' @ [CHR 0x0A] @
     ''                    <h3 style="margin: 0 0 8px 0; font-size: 18px; line-height: 1.4;">'' @ [CHR 0x0A] @
     ''                        <a href="'' @ link a @ ''" target="_blank" style="color: #1e293b; text-decoration: none;">'' @ [CHR 0x0A] @
     ''                            '' @ str_nat i @ ''. '' @ title a @ [CHR 0x0A] @
     ''                        </a>'' @ [CHR 0x0A] @
     ''                    </h3>'' @ [CHR 0x0A] @
     ''                    <p style="color: #64748b; margin: 0 0 10px 0; font-size: 13px;">'' @ [CHR 0x0A] @
     ''                        '' @ [CHR 0xF0, CHR 0x9F, CHR 0x93, CHR 0x8D] @ '' '' @ source a @ '' '' @ [CHR 0xC2, CHR 0xB7] @ '' '' @ [CHR 0xF0, CHR 0x9F, CHR 0x93, CHR 0x85] @ '' '' @ take 15 (published a) @ [CHR 0x0A] @
     ''                    </p>'' @ [CHR 0x0A] @
     ''                    <p style="color: #475569; margin: 0 0 10px 0; line-height: 1.6; font-size: 15px;">'' @ [CHR 0x0A] @
     ''                        '' @ s @ [CHR 0x0A] @
     ''                    </p>'' @ [CHR 0x0A] @
     ''                    <a href="'' @ link a @ ''" target="_blank" style="color: #3b82f6; text-decoration: none; font-weight: 600; font-size: 14px;">'' @ [CHR 0x0A] @
     ''                        Read full story '' @ [CHR 0xE2, CHR 0x86, CHR 0x92] @ [CHR 0x0A] @
     ''                    </a>'' @ [CHR 0x0A] @
     ''                </article>'' @ [CHR 0x0A] @
     ''            ''\<close>

definition articles_html_close :: \<open>string\<close> where
  \<open>articles_html_close =
     ''</section>''\<close>








text \<open>The heading of the articles section, as it stands in \<open>articles_html_open\<close>.\<close>

definition top_stories_heading :: string where
  "top_stories_heading =
     [CHR 0xF0, CHR 0x9F, CHR 0x93, CHR 0xB0] @ '' Today'' @ [CHR 0x27] @ ''s Top Stories''"


text \<open>\<open>enumerate(zip(rss_articles, article_summaries), 1)\<close>.\<close>

definition articles_html_of :: "article list \<Rightarrow> string list \<Rightarrow> string" where
  "articles_html_of rss_articles article_summaries =
     (if rss_articles \<noteq> [] \<and> article_summaries \<noteq> []
      then
        let pairs = zip rss_articles article_summaries
        in articles_html_open @
           concat [articles_html_item (Suc i) (fst (pairs ! i)) (snd (pairs ! i)). i \<leftarrow> [0..<length pairs]] @
           articles_html_close
      else [])"





subsection \<open>\<open>create_template_only_newsletter\<close>\<close>




subsection \<open>\<open>generate_newsletter_with_ai\<close>\<close>






section \<open>An example store\<close>

definition demo_db :: db where
  "demo_db =
     \<lparr>newsletters =
        [\<lparr>nl_id = ''n1'', nl_user_id = ''bob'', nl_title = ''Weekly'', nl_content = ''<p>hi</p>'',
          nl_status = ''draft'', nl_created_at = 100, nl_accepted_at = None, nl_sent_at = None\<rparr>,
         \<lparr>nl_id = ''n2'', nl_user_id = ''alice'', nl_title = ''Daily'', nl_content = ''<p>yo</p>'',
          nl_status = ''sent'', nl_created_at = 200, nl_accepted_at = None, nl_sent_at = Some 250\<rparr>],
      newsletter_feedback = [],
      newsletter_metrics =
        [\<lparr>m_newsletter_id = ''n1'', m_metric_type = ''open_rate'', m_value = 42, m_recorded_at = 300\<rparr>,
         \<lparr>m_newsletter_id = ''n1'', m_metric_type = ''click_rate'', m_value = 7, m_recorded_at = 300\<rparr>,
         \<lparr>m_newsletter_id = ''n2'', m_metric_type = ''open_rate'', m_value = 10, m_recorded_at = 310\<rparr>,
         \<lparr>m_newsletter_id = ''n2'', m_metric_type = ''open_rate'', m_value = 50, m_recorded_at = 320\<rparr>,
         \<lparr>m_newsletter_id = ''n2'', m_metric_type = ''open_rate'', m_value = 50, m_recorded_at = 330\<rparr>,
         \<lparr>m_newsletter_id = ''n2'', m_metric_type = ''open_rate'', m_value = 50, m_recorded_at = 340\<rparr>],
      user_sources =
        [\<lparr>src_id = ''s1'', src_user_id = ''bob'', src_url = ''https://a.example/feed'',
          src_type = ''rss'', src_active = Some True, src_created_at = 10\<rparr>,
         \<lparr>src_id = ''s2'', src_user_id = ''bob'', src_url = ''https://b.example/feed'',
          src_type = ''rss'', src_active = Some False, src_created_at = 20\<rparr>,
         \<lparr>src_id = ''s3'', src_user_id = ''alice'', src_url = ''https://c.example/feed'',
          src_type = ''rss'', src_active = Some True, src_created_at = 30\<rparr>],
      scheduled_deliveries =
        [\<lparr>sd_user_id = ''bob'', sd_schedule_time = Some ''08:00:00'',
          sd_delivery_method = ''email'', sd_is_active = Some True\<rparr>,
         \<lparr>sd_user_id = ''alice'', sd_schedule_time = Some ''09:30:00'',
          sd_delivery_method = ''email'', sd_is_active = Some True\<rparr>,
         \<lparr>sd_user_id = ''carol'', sd_schedule_time = Some ''08:00:00'',
          sd_delivery_method = ''both'', sd_is_active = Some False\<rparr>],
      failing = []\<rparr>"


definition demo_feed :: "article list" where
  "demo_feed =
     [\<lparr>title = ''Rust 2.0 released'', link = ''https://blog.example/rust-2'',
       summary = ''The release is out'', published = ''January 05, 2026'',
       author = ''Ferris'', source = ''Example Blog'', tags = [''rust''], engagement = None\<rparr>,
      \<lparr>title = ''Rust 2.0 is here'', link = ''https://blog.example/rust-2'',
       summary = ''Syndicated copy'', published = ''January 05, 2026'',
       author = ''Ferris'', source = ''Planet'', tags = [], engagement = None\<rparr>,
      \<lparr>title = ''Hello, World! again'', link = [],
       summary = ''First'', published = ''Recently'',
       author = ''Unknown'', source = ''Notes'', tags = [], engagement = None\<rparr>,
      \<lparr>title = ''hello world AGAIN'', link = [],
       summary = ''Second'', published = ''Recently'',
       author = ''Unknown'', source = ''Notes'', tags = [], engagement = None\<rparr>]"

definition demo_chain :: "article list" where
  "demo_chain =
     [\<lparr>title = ''Blockchain adoption grows'', link = ''https://news.example/1'',
       summary = ''Banks test blockchain rails'', published = ''January 05, 2026'',
       author = ''Ada'', source = ''Example News'', tags = [], engagement = None\<rparr>,
      \<lparr>title = ''Why blockchain matters'', link = ''https://news.example/2'',
       summary = ''A blockchain primer for teams'', published = ''January 04, 2026'',
       author = ''Bob'', source = ''Example News'', tags = [], engagement = None\<rparr>]"

definition demo_apps :: "article list" where
  "demo_apps =
     [\<lparr>title = ''App app app'', link = ''https://news.example/3'',
       summary = ''blockchain blockchain'', published = ''January 03, 2026'',
       author = ''Cy'', source = ''Example News'', tags = [], engagement = None\<rparr>]"

section \<open>Properties of the thread generator\<close>

lemma length_truncate_tweet_280: "length (truncate_tweet t 280) \<le> 280"
  by (simp add: truncate_tweet_def slice_to_def)

lemma truncate_tweet_280:
  "truncate_tweet t 280 = (if length t \<le> 280 then t else take 277 t @ ''...'')"
  by (simp add: truncate_tweet_def slice_to_def)

lemma length_parse_twitter_thread: "length (parse_twitter_thread s) \<le> 6"
  by (simp add: parse_twitter_thread_def Let_def)

text \<open>C8: every thread that \<open>generate_twitter_thread\<close> returns has at most 6 posts, every
  post has at most 280 characters, and a post is the parsed tweet itself when that has
  at most 280 characters and otherwise its first 277 characters followed by the
  three-character ellipsis.\<close>

theorem twitter_thread_posts_bounded:
  assumes "generate_twitter_thread client now content articles trends tone = Inr r"
  shows "length (posts r) \<le> 6 \<and> (\<forall>p \<in> set (posts r). length p \<le> 280) \<and>
         posts r = map (\<lambda>t. if length t \<le> 280 then t else take 277 t @ ''...'')
                       (parse_twitter_thread (full_text r))"
  using assms
  by (auto simp: generate_twitter_thread_def Let_def length_parse_twitter_thread
        length_truncate_tweet_280 truncate_tweet_280 split: option.splits)

theorem twitter_thread_posts_bounded_witness:
  "(case generate_twitter_thread
           (\<lambda>_. Some (''1/ Hi'' @ [CHR 0x0A] @ ''2/ '' @ replicate 281 (CHR ''x'')))
           ''2026-01-01'' ''content'' ''articles'' ''trends'' ''Professional'' of
      Inl e \<Rightarrow> False
    | Inr r \<Rightarrow> map length (posts r) = [2, 280] \<and> length (posts r) \<le> 6
              \<and> list_all (\<lambda>p. length p \<le> 280) (posts r))"
proof -
  let ?r = "\<lparr>platform = ''twitter'',
             posts = [''Hi'', replicate 277 (CHR ''x'') @ ''...''],
             full_text = ''1/ Hi'' @ [CHR 0x0A] @ ''2/ '' @ replicate 281 (CHR ''x''),
             char_counts = [2, 280], created_at = ''2026-01-01''\<rparr>"
  have h: "generate_twitter_thread
           (\<lambda>_. Some (''1/ Hi'' @ [CHR 0x0A] @ ''2/ '' @ replicate 281 (CHR ''x'')))
           ''2026-01-01'' ''content'' ''articles'' ''trends'' ''Professional'' = Inr ?r"
    by code_simp
  from twitter_thread_posts_bounded [OF h]
  have "length (posts ?r) \<le> 6" and "\<forall>p \<in> set (posts ?r). length p \<le> 280"
    by blast+
  moreover have "map length (posts ?r) = [2, 280]"
    by simp
  ultimately show ?thesis
    by (subst h) (simp only: sum.case list_all_iff simp_thms)
qed

section \<open>Properties of the facade, the analytics and the scheduler\<close>

lemma get_user_sources_active:
  "s \<in> set (get_user_sources supabase user_id) \<Longrightarrow> src_active s = Some True \<and> src_user_id s = user_id"
  by (auto simp: get_user_sources_def split: option.splits if_splits)

text \<open>C10: in the statistics that \<open>get_user_stats\<close> returns, \<open>active_sources\<close> equals
  \<open>total_sources\<close>: every row that \<open>get_user_sources\<close> returns has \<open>active\<close> true, so the
  filter on the flag excludes nothing.\<close>

theorem user_stats_active_equals_total:
  assumes "get_user_stats supabase user_id = Some st"
  shows "active_sources st = total_sources st \<and>
         (\<forall>s \<in> set (get_user_sources supabase user_id). src_active s = Some True)"
proof -
  have all: "\<forall>s \<in> set (get_user_sources supabase user_id). src_active s = Some True"
    using get_user_sources_active by blast
  then have "[s \<leftarrow> get_user_sources supabase user_id. src_active s = Some True]
             = get_user_sources supabase user_id"
    by (simp add: filter_id_conv)
  with assms all show ?thesis
    by (auto simp: get_user_stats_def Let_def split: option.splits)
qed


lemma check_schedules_event:
  "ev \<in> set (check_schedules cur rows) \<Longrightarrow>
     (case ev of
        Triggered u r \<Rightarrow> r \<in> set rows \<and> u = sd_user_id r \<and> map_option (take 5) (sd_schedule_time r) = Some cur
      | Skipped r \<Rightarrow> r \<in> set rows \<and> sd_schedule_time r \<noteq> None
                     \<and> map_option (take 5) (sd_schedule_time r) \<noteq> Some cur)"
proof (induction rows)
  case Nil
  then show ?case by simp
next
  case (Cons row rows)
  show ?case
  proof (cases "sd_schedule_time row")
    case None
    with Cons.prems show ?thesis by simp
  next
    case (Some t)
    with Cons show ?thesis
      by (cases ev) (auto simp: Let_def split: if_splits)
  qed
qed

lemma active_schedules_active: "r \<in> set (active_schedules d) \<Longrightarrow> sd_is_active r = Some True \<and> r \<in> set (scheduled_deliveries d)"
  by (simp add: active_schedules_def)

lemma tick_events:
  assumes "ev \<in> set (check_and_send_scheduled_newsletters supabase clk)
           \<or> ev \<in> set (check_and_send_scheduled supabase clk)"
  shows "\<exists>d. supabase = Some d \<and> ev \<in> set (check_schedules (strftime_HM clk) (active_schedules d))"
  using assms
  by (auto simp: check_and_send_scheduled_newsletters_def check_and_send_scheduled_def Let_def
      split: option.splits if_splits)

text \<open>C9: in both schedulers, a row for which generation and delivery is triggered is active
  and the first five characters of its \<open>schedule_time\<close> are the current \<open>HH:MM\<close>; a row
  that is looked at and skipped is active with another \<open>HH:MM\<close>; an inactive row is
  never looked at, since every event of a tick is about an active row.\<close>

theorem scheduler_triggers_only_active_matching:
  assumes "ev \<in> set (check_and_send_scheduled_newsletters supabase clk)
           \<or> ev \<in> set (check_and_send_scheduled supabase clk)"
  shows "case ev of
           Triggered u r \<Rightarrow> sd_is_active r = Some True \<and> u = sd_user_id r
               \<and> map_option (take 5) (sd_schedule_time r) = Some (strftime_HM clk)
         | Skipped r \<Rightarrow> sd_is_active r = Some True
               \<and> map_option (take 5) (sd_schedule_time r) \<noteq> Some (strftime_HM clk)"
proof -
  from tick_events [OF assms] obtain d where
    ev: "ev \<in> set (check_schedules (strftime_HM clk) (active_schedules d))" by blast
  from check_schedules_event [OF ev] active_schedules_active [of _ d]
  show ?thesis by (cases ev) auto
qed




lemma classify_trend_short: "length os < 2 \<Longrightarrow> classify_trend os = ''stable''"
  by (simp add: classify_trend_def)

lemma classify_trend_cases:
  "classify_trend os = ''improving'' \<or> classify_trend os = ''declining'' \<or> classify_trend os = ''stable''"
  by (simp add: classify_trend_def Let_def)

lemma classify_trend_not_no_data: "classify_trend os \<noteq> ''no_data''"
  using classify_trend_cases [of os] by auto

lemma analytics_trend:
  assumes "get_engagement_analytics (Some d) now user_id days = Some r"
  shows "trend r =
           (if window_newsletters d now user_id days = []
               \<or> window_metrics d (map nl_id (window_newsletters d now user_id days)) = []
            then ''no_data''
            else classify_trend (rates ''open_rate''
                   (window_metrics d (map nl_id (window_newsletters d now user_id days)))))"
  using assms
  by (auto simp: get_engagement_analytics_def Let_def no_data_def split: if_splits)

text \<open>C2, amended: with newsletters and metrics in the window but fewer than 2 \<open>open_rate\<close>
  samples the trend is \<open>stable\<close>; \<open>improving\<close> and \<open>declining\<close> are returned only with at
  least 2 samples; \<open>no_data\<close> is returned exactly when the window has no newsletter or
  these have no metric.\<close>

theorem engagement_trend_labels:
  assumes "get_engagement_analytics (Some d) now user_id days = Some r"
  shows
    "let ns = window_newsletters d now user_id days;
         ms = window_metrics d (map nl_id ns);
         open_rates = rates ''open_rate'' ms
     in (ns \<noteq> [] \<and> ms \<noteq> [] \<and> length open_rates < 2 \<longrightarrow> trend r = ''stable'')
        \<and> (trend r = ''improving'' \<or> trend r = ''declining'' \<longrightarrow> 2 \<le> length open_rates)
        \<and> (trend r = ''no_data'' \<longleftrightarrow> ns = [] \<or> ms = [])"
proof -
  let ?ns = "window_newsletters d now user_id days"
  let ?ms = "window_metrics d (map nl_id ?ns)"
  let ?os = "rates ''open_rate'' ?ms"
  note t = analytics_trend [OF assms]
  show ?thesis
  proof (cases "?ns = [] \<or> ?ms = []")
    case True
    with t have "trend r = ''no_data''" by simp
    with True show ?thesis by (auto simp: Let_def)
  next
    case False
    with t have c: "trend r = classify_trend ?os" by simp
    have "length ?os < 2 \<Longrightarrow> trend r = ''stable''"
      using c by (simp add: classify_trend_short)
    moreover have "2 \<le> length ?os" if "trend r = ''improving'' \<or> trend r = ''declining''"
    proof (rule ccontr)
      assume "\<not> 2 \<le> length ?os"
      then have "trend r = ''stable''"
        using c by (simp add: classify_trend_short)
      with that show False by auto
    qed
    moreover have "trend r \<noteq> ''no_data''"
      using c by (simp add: classify_trend_not_no_data)
    ultimately show ?thesis
      using False by (simp add: Let_def)
  qed
qed


theorem user_stats_active_equals_total_witness:
  "(case get_user_stats (Some demo_db) ''bob'' of
      None \<Rightarrow> False
    | Some st \<Rightarrow> total_sources st = 1 \<and> active_sources st = total_sources st)"
proof -
  let ?st = "\<lparr>total_newsletters = 1, draft_newsletters = 1, published_newsletters = 0,
              total_sources = 1, active_sources = 1, last_newsletter_date = Some 100\<rparr>"
  have h: "get_user_stats (Some demo_db) ''bob'' = Some ?st"
    by code_simp
  from user_stats_active_equals_total [OF h]
  have "active_sources ?st = total_sources ?st" by blast
  moreover have "total_sources ?st = 1" by simp
  ultimately show ?thesis
    by (subst h) (simp only: option.case simp_thms)
qed

theorem scheduler_triggers_only_active_matching_witness:
  "check_and_send_scheduled_newsletters (Some demo_db) \<lparr>hour = 8, minute = 0\<rparr>
     = [Triggered ''bob'' (scheduled_deliveries demo_db ! 0), Skipped (scheduled_deliveries demo_db ! 1)]
   \<and> sd_is_active (scheduled_deliveries demo_db ! 0) = Some True
   \<and> map_option (take 5) (sd_schedule_time (scheduled_deliveries demo_db ! 0))
       = Some (strftime_HM \<lparr>hour = 8, minute = 0\<rparr>)
   \<and> sd_is_active (scheduled_deliveries demo_db ! 2) = Some False"
proof -
  have h: "check_and_send_scheduled_newsletters (Some demo_db) \<lparr>hour = 8, minute = 0\<rparr>
     = [Triggered ''bob'' (scheduled_deliveries demo_db ! 0), Skipped (scheduled_deliveries demo_db ! 1)]"
    by code_simp
  then have m: "Triggered ''bob'' (scheduled_deliveries demo_db ! 0)
           \<in> set (check_and_send_scheduled_newsletters (Some demo_db) \<lparr>hour = 8, minute = 0\<rparr>)
         \<or> Triggered ''bob'' (scheduled_deliveries demo_db ! 0)
           \<in> set (check_and_send_scheduled (Some demo_db) \<lparr>hour = 8, minute = 0\<rparr>)"
    by simp
  have i: "sd_is_active (scheduled_deliveries demo_db ! 2) = Some False"
    by (simp add: demo_db_def)
  from scheduler_triggers_only_active_matching [OF m] h i show ?thesis
    by (simp only: sched_event.case simp_thms)
qed

lemma update_newsletter_only_own_rows:
  assumes "update_newsletter (Some d) newsletter_id updates user_id = (ok, Some d')"
  shows "length (newsletters d') = length (newsletters d) \<and>
         (\<forall>i < length (newsletters d).
            nl_user_id (newsletters d ! i) \<noteq> user_id \<longrightarrow> newsletters d' ! i = newsletters d ! i)"
  using assms
  by (auto simp: update_newsletter_def Let_def split: if_splits)

lemma update_newsletter_foreign_unchanged:
  "update_newsletter (Some demo_db) ''n1'' (\<lambda>n. n\<lparr>nl_status := ''accepted''\<rparr>) ''alice''
     = (False, Some demo_db)"
  by (simp add: update_newsletter_def raises_def demo_db_def)

text \<open>C1: \<open>record_feedback\<close> updates the newsletter by its id alone. Called for user
  \<open>alice\<close> on newsletter \<open>n1\<close>, which belongs to \<open>bob\<close>, it sets the status of bob's row
  to \<open>accepted\<close>, where \<open>update_newsletter\<close> with the same arguments changes nothing.\<close>

theorem record_feedback_accepts_foreign_newsletter:
  "(case snd (record_feedback (Some demo_db) (\<lambda>a b. []) 500 ''n1'' ''alice'' ''thumbs_up'' None None) of
      None \<Rightarrow> []
    | Some d \<Rightarrow> [(nl_id n, nl_user_id n, nl_status n, nl_accepted_at n). n \<leftarrow> newsletters d])
   = [(''n1'', ''bob'', ''accepted'', Some 500), (''n2'', ''alice'', ''sent'', None)]"
  by code_simp

text \<open>C2, as stated, fails: with one newsletter in the window and a single \<open>open_rate\<close>
  sample the trend is \<open>stable\<close>, not \<open>no_data\<close>.\<close>

theorem engagement_trend_stable_counterexample:
  "length (rates ''open_rate''
      (window_metrics demo_db (map nl_id (window_newsletters demo_db 1000 ''bob'' 30)))) = 1
   \<and> map_option trend (get_engagement_analytics (Some demo_db) 1000 ''bob'' 30) = Some ''stable''"
  by code_simp

theorem engagement_trend_labels_witness:
  "get_engagement_analytics (Some demo_db) 1000 ''bob'' 30
     = Some \<lparr>avg_open_rate = 42, avg_click_rate = 7, total_sent = Some 1, trend = ''stable''\<rparr>
   \<and> length (rates ''open_rate''
        (window_metrics demo_db (map nl_id (window_newsletters demo_db 1000 ''bob'' 30)))) = 1
   \<and> get_engagement_analytics (Some demo_db) 1000 ''alice'' 30
     = Some \<lparr>avg_open_rate = 40, avg_click_rate = 0, total_sent = Some 1, trend = ''improving''\<rparr>
   \<and> 2 \<le> length (rates ''open_rate''
        (window_metrics demo_db (map nl_id (window_newsletters demo_db 1000 ''alice'' 30))))"
proof -
  have b: "get_engagement_analytics (Some demo_db) 1000 ''bob'' 30
     = Some \<lparr>avg_open_rate = 42, avg_click_rate = 7, total_sent = Some 1, trend = ''stable''\<rparr>"
    by code_simp
  have a: "get_engagement_analytics (Some demo_db) 1000 ''alice'' 30
     = Some \<lparr>avg_open_rate = 40, avg_click_rate = 0, total_sent = Some 1, trend = ''improving''\<rparr>"
    by code_simp
  have n: "length (rates ''open_rate''
        (window_metrics demo_db (map nl_id (window_newsletters demo_db 1000 ''bob'' 30)))) = 1"
    by code_simp
  from engagement_trend_labels [OF b] n
  have "trend \<lparr>avg_open_rate = 42, avg_click_rate = 7, total_sent = Some 1, trend = ''stable''\<rparr> = ''stable''"
    by simp
  from engagement_trend_labels [OF a]
  have "2 \<le> length (rates ''open_rate''
        (window_metrics demo_db (map nl_id (window_newsletters demo_db 1000 ''alice'' 30))))"
    by (simp add: Let_def)
  with a b n show ?thesis by blast
qed

section \<open>Properties of the tone detector\<close>

lemma max_by_score_mem: "max_by_score best kvs \<in> set (best # kvs)"
  by (induction kvs arbitrary: best) auto

lemma max_by_score_all_le:
  "\<forall>kv \<in> set kvs. snd kv \<le> snd best \<Longrightarrow> max_by_score best kvs = best"
  by (induction kvs arbitrary: best) auto

lemma tone_patterns_keys:
  "map fst tone_patterns = [''casual'', ''professional'', ''enthusiastic'', ''analytical'']"
  by (simp add: tone_patterns_def)

lemma detect_tone_scores_keys:
  "map fst (scores (detect_tone_indicators t)) = map fst tone_patterns"
proof -
  obtain tp tps where c: "tone_patterns = tp # tps"
    by (simp add: tone_patterns_def)
  show ?thesis
    by (simp add: detect_tone_indicators_def Let_def c comp_def)
qed

lemma detect_tone_unfold:
  assumes "tone_patterns = tp # tps"
  shows "detect_tone_indicators t =
           (let f = (\<lambda>tp. (fst tp, sum_list [count_matches pat False (lower t). pat \<leftarrow> snd tp]))
            in \<lparr>dominant_tone = fst (max_by_score (f tp) (map f tps)),
                scores = f tp # map f tps\<rparr>)"
  by (simp add: detect_tone_indicators_def Let_def assms del: max_by_score.simps)

lemma detect_tone_dominant_mem:
  "dominant_tone (detect_tone_indicators t) \<in> fst ` set (scores (detect_tone_indicators t))"
proof -
  obtain tp tps where c: "tone_patterns = tp # tps"
    by (simp add: tone_patterns_def)
  let ?f = "\<lambda>tp. (fst tp, sum_list [count_matches pat False (lower t). pat \<leftarrow> snd tp])"
  have "max_by_score (?f tp) (map ?f tps) \<in> set (?f tp # map ?f tps)"
    by (rule max_by_score_mem)
  then have "fst (max_by_score (?f tp) (map ?f tps)) \<in> fst ` set (?f tp # map ?f tps)"
    by (rule imageI)
  then show ?thesis
    by (simp only: detect_tone_unfold [OF c] Let_def tone_result.simps)
qed

lemma detect_tone_never_neutral:
  "dominant_tone (detect_tone_indicators t) \<noteq> ''neutral''"
proof -
  have "dominant_tone (detect_tone_indicators t) \<in> set (map fst tone_patterns)"
    using detect_tone_dominant_mem [of t] detect_tone_scores_keys [of t] by (metis set_map)
  then show ?thesis
    unfolding tone_patterns_keys by auto
qed

lemma detect_tone_all_zero:
  assumes "\<forall>kv \<in> set (scores (detect_tone_indicators t)). snd kv = 0"
  shows "dominant_tone (detect_tone_indicators t) = ''casual''"
proof -
  obtain tp tps where c: "tone_patterns = tp # tps" and f: "fst tp = ''casual''"
    by (simp add: tone_patterns_def)
  let ?f = "\<lambda>tp. (fst tp, sum_list [count_matches pat False (lower t). pat \<leftarrow> snd tp])"
  have s: "scores (detect_tone_indicators t) = ?f tp # map ?f tps"
    and d: "dominant_tone (detect_tone_indicators t) = fst (max_by_score (?f tp) (map ?f tps))"
    by (simp_all only: detect_tone_unfold [OF c] Let_def tone_result.simps)
  have z: "\<forall>kv \<in> set (?f tp # map ?f tps). snd kv = 0"
    using assms unfolding s .
  have "\<forall>kv \<in> set (map ?f tps). snd kv \<le> snd (?f tp)"
  proof
    fix kv
    assume "kv \<in> set (map ?f tps)"
    then have "kv \<in> set (?f tp # map ?f tps)"
      by (rule list.set_intros(2))
    with z have "snd kv = 0" by blast
    then show "snd kv \<le> snd (?f tp)" by simp
  qed
  from max_by_score_all_le [OF this] have "max_by_score (?f tp) (map ?f tps) = ?f tp" .
  with d f show ?thesis
    by simp
qed

text \<open>C3: on a text without any match of the four pattern sets the four scores are zero
  and the dominant tone that \<open>detect_tone_indicators\<close> returns is \<open>casual\<close>, the first key of
  the scores, not \<open>neutral\<close>: the dictionary of scores always has its four keys, so the
  branch that returns \<open>neutral\<close> is never taken.\<close>

theorem detect_tone_all_zero_gives_casual:
  "detect_tone_indicators ''Quarterly results were published today.''
     = \<lparr>dominant_tone = ''casual'',
        scores = [(''casual'', 0), (''professional'', 0), (''enthusiastic'', 0), (''analytical'', 0)]\<rparr>"
  by code_simp

section \<open>Properties of newsletter generation\<close>



lemma contains_Cons: "contains (c # cs) n = (is_prefix n (c # cs) \<or> contains cs n)"
  by (subst contains.simps) simp





















lemma is_prefix_append: "is_prefix n (n @ ys)"
  by (induction n) auto

lemma contains_append: "contains (xs @ n @ ys) n"
proof (induction xs)
  case Nil
  show ?case
    by (subst contains.simps) (simp add: is_prefix_append del: contains.simps)
next
  case (Cons x xs)
  then show ?case
    by (simp only: append_Cons contains_Cons simp_thms)
qed

lemma articles_html_open_split:
  "\<exists>pre post. articles_html_open = pre @ top_stories_heading @ post"
proof -
  have \<open>articles_html_open =
      ([CHR 0x0A] @
       ''            <section style="padding: 20px 0;">'' @ [CHR 0x0A] @
       ''                <h2 style="color: #1e293b; margin-bottom: 20px; font-size: 22px; border-bottom: 2px solid #e2e8f0; padding-bottom: 10px;">'')
      @ top_stories_heading @ (''</h2>'' @ [CHR 0x0A] @ ''        '')\<close>
    by (simp add: articles_html_open_def top_stories_heading_def)
  then show ?thesis
    by blast
qed

lemma articles_html_open_heading: "contains articles_html_open top_stories_heading"
proof -
  obtain pre post where e: "articles_html_open = pre @ top_stories_heading @ post"
    using articles_html_open_split by blast
  show ?thesis
    by (subst e) (rule contains_append)
qed

lemma articles_html_of_heading:
  assumes "rss_articles \<noteq> []" and "article_summaries \<noteq> []"
  shows "contains (articles_html_of rss_articles article_summaries) top_stories_heading"
proof -
  obtain pre post where e: "articles_html_open = pre @ top_stories_heading @ post"
    using articles_html_open_split by blast
  obtain rest where "articles_html_of rss_articles article_summaries = articles_html_open @ rest"
    using assms by (simp add: articles_html_of_def Let_def)
  then have "articles_html_of rss_articles article_summaries
             = pre @ top_stories_heading @ (post @ rest)"
    by (simp add: e)
  then show ?thesis
    by (metis contains_append)
qed



section \<open>Properties of deduplication\<close>

lemma foldl_dedup_step:
  "foldl dedup_step (acc, seen) xs = (acc @ dedup_from seen xs, seen \<union> unique_key ` set xs)"
  by (induction xs arbitrary: acc seen) (auto simp: dedup_step_def Let_def)

lemma remove_duplicate_articles_dedup_from:
  "remove_duplicate_articles xs = dedup_from {} xs"
  by (simp add: remove_duplicate_articles_def foldl_dedup_step)

lemma dedup_from_keys:
  "unique_key ` set (dedup_from seen xs) = unique_key ` set xs - seen"
  by (induction xs arbitrary: seen) auto

lemma dedup_from_distinct: "distinct (map unique_key (dedup_from seen xs))"
proof (induction xs arbitrary: seen)
  case Nil
  then show ?case by simp
next
  case (Cons a as)
  have "unique_key a \<notin> unique_key ` set (dedup_from (insert (unique_key a) seen) as)"
    unfolding dedup_from_keys by simp
  with Cons show ?case by simp
qed

lemma dedup_from_fixed:
  "distinct (map unique_key xs) \<Longrightarrow> unique_key ` set xs \<inter> seen = {} \<Longrightarrow> dedup_from seen xs = xs"
  by (induction xs arbitrary: seen) auto

lemma dedup_from_first:
  "a \<in> set (dedup_from seen xs) \<Longrightarrow> find (\<lambda>b. unique_key b = unique_key a) xs = Some a"
proof (induction xs arbitrary: seen)
  case Nil
  then show ?case by simp
next
  case (Cons x xs)
  show ?case
  proof (cases "unique_key x \<in> seen")
    case True
    with Cons.prems have m: "a \<in> set (dedup_from seen xs)" by simp
    then have "unique_key a \<in> unique_key ` set xs - seen"
      unfolding dedup_from_keys [symmetric] by (rule imageI)
    with True have "unique_key x \<noteq> unique_key a" by auto
    with Cons.IH [OF m] show ?thesis by simp
  next
    case False
    show ?thesis
    proof (cases "a = x")
      case True
      then show ?thesis by simp
    next
      case ne: False
      with False Cons.prems have m: "a \<in> set (dedup_from (insert (unique_key x) seen) xs)"
        by simp
      then have "unique_key a \<in> unique_key ` set xs - insert (unique_key x) seen"
        unfolding dedup_from_keys [symmetric] by (rule imageI)
      then have "unique_key x \<noteq> unique_key a" by auto
      with Cons.IH [OF m] show ?thesis by simp
    qed
  qed
qed

text \<open>C6: \<open>remove_duplicate_articles\<close> is idempotent; the deduplication keys of its output
  are pairwise different and are exactly the keys of the input; and every article it
  keeps is the first article of the input with its key.\<close>

theorem remove_duplicate_articles_idempotent_unique:
  "remove_duplicate_articles (remove_duplicate_articles L) = remove_duplicate_articles L
   \<and> distinct (map unique_key (remove_duplicate_articles L))
   \<and> unique_key ` set (remove_duplicate_articles L) = unique_key ` set L
   \<and> (\<forall>a \<in> set (remove_duplicate_articles L).
         find (\<lambda>b. unique_key b = unique_key a) L = Some a)"
proof -
  have "dedup_from {} (dedup_from {} L) = dedup_from {} L"
    by (rule dedup_from_fixed) (simp_all add: dedup_from_distinct)
  moreover have "unique_key ` set (dedup_from {} L) = unique_key ` set L"
    by (simp add: dedup_from_keys)
  ultimately show ?thesis
    unfolding remove_duplicate_articles_dedup_from
    using dedup_from_distinct dedup_from_first by blast
qed

theorem remove_duplicate_articles_idempotent_unique_witness:
  "remove_duplicate_articles demo_feed = [demo_feed ! 0, demo_feed ! 2]
   \<and> map unique_key demo_feed
       = [''https://blog.example/rust-2'', ''https://blog.example/rust-2'',
          ''hello world again|Notes'', ''hello world again|Notes'']
   \<and> remove_duplicate_articles (remove_duplicate_articles demo_feed) = remove_duplicate_articles demo_feed
   \<and> distinct (map unique_key (remove_duplicate_articles demo_feed))
   \<and> find (\<lambda>b. unique_key b = unique_key (demo_feed ! 2)) demo_feed = Some (demo_feed ! 2)"
proof -
  have h: "remove_duplicate_articles demo_feed = [demo_feed ! 0, demo_feed ! 2]"
    by code_simp
  have k: "map unique_key demo_feed
       = [''https://blog.example/rust-2'', ''https://blog.example/rust-2'',
          ''hello world again|Notes'', ''hello world again|Notes'']"
    by code_simp
  have m: "demo_feed ! 2 \<in> set (remove_duplicate_articles demo_feed)"
    unfolding h by simp
  from remove_duplicate_articles_idempotent_unique [of demo_feed] m h k
  show ?thesis by blast
qed

section \<open>Properties of \<open>clean_html\<close>\<close>

lemma space_not_gt [simp]: "is_space c \<Longrightarrow> not_gt c"
  by (auto simp: is_space_def whitespace_chars_def not_gt_def)

lemma set_strip_tags: "set (strip_tags s) \<subseteq> set s"
proof (induction s rule: strip_tags.induct)
  case 1
  then show ?case by simp
next
  case (2 c cs)
  show ?case
  proof (cases "c = CHR ''<'' \<and> takeWhile not_gt cs \<noteq> [] \<and> dropWhile not_gt cs \<noteq> []")
    case True
    have e: "strip_tags (c # cs) = strip_tags (tl (dropWhile not_gt cs))"
      using True by simp
    have "set (strip_tags (tl (dropWhile not_gt cs))) \<subseteq> set (tl (dropWhile not_gt cs))"
      using "2.IH"(1) True by blast
    then have "set (strip_tags (c # cs)) \<subseteq> set (tl (dropWhile not_gt cs))"
      unfolding e .
    also have "\<dots> \<subseteq> set (dropWhile not_gt cs)"
      using True by (simp add: list.set_sel(2) subsetI)
    also have "\<dots> \<subseteq> set cs"
      by (auto dest: set_dropWhileD)
    finally show ?thesis by (auto simp del: strip_tags.simps)
  next
    case False
    have "strip_tags (c # cs) = c # strip_tags cs"
      using False by auto
    moreover have "set (strip_tags cs) \<subseteq> set cs"
      using "2.IH"(2) False by blast
    ultimately show ?thesis by auto
  qed
qed

lemma head_free_strip_tags:
  assumes "takeWhile not_gt cs = [] \<or> dropWhile not_gt cs = []"
  shows "takeWhile not_gt (strip_tags cs) = [] \<or> dropWhile not_gt (strip_tags cs) = []"
  using assms
proof
  assume "takeWhile not_gt cs = []"
  then show ?thesis
    by (cases cs) (auto simp: not_gt_def split: if_splits)
next
  assume "dropWhile not_gt cs = []"
  then have "\<forall>x \<in> set (strip_tags cs). not_gt x"
    using set_strip_tags [of cs] by (auto simp: dropWhile_eq_Nil_conv)
  then show ?thesis by (simp add: dropWhile_eq_Nil_conv)
qed

lemma tag_free_strip_tags: "tag_free (strip_tags s)"
proof (induction s rule: strip_tags.induct)
  case 1
  then show ?case by simp
next
  case (2 c cs)
  show ?case
  proof (cases "c = CHR ''<'' \<and> takeWhile not_gt cs \<noteq> [] \<and> dropWhile not_gt cs \<noteq> []")
    case True
    have e: "strip_tags (c # cs) = strip_tags (tl (dropWhile not_gt cs))"
      using True by simp
    have "tag_free (strip_tags (tl (dropWhile not_gt cs)))"
      using "2.IH"(1) True by blast
    then show ?thesis
      unfolding e .
  next
    case False
    have "tag_free (strip_tags cs)"
      using "2.IH"(2) False by blast
    moreover have "strip_tags (c # cs) = c # strip_tags cs"
      using False by auto
    moreover have "c = CHR ''<'' \<Longrightarrow>
        takeWhile not_gt (strip_tags cs) = [] \<or> dropWhile not_gt (strip_tags cs) = []"
      using False head_free_strip_tags [of cs] by blast
    ultimately show ?thesis by simp
  qed
qed

lemma tag_free_fixed: "tag_free s \<Longrightarrow> strip_tags s = s"
  by (induction s) (auto split: if_splits)

lemma tag_free_dropWhile: "tag_free s \<Longrightarrow> tag_free (dropWhile P s)"
  by (induction s) auto

lemma head_free_take:
  assumes "takeWhile not_gt cs = [] \<or> dropWhile not_gt cs = []"
  shows "takeWhile not_gt (take n cs) = [] \<or> dropWhile not_gt (take n cs) = []"
  using assms
proof
  assume "takeWhile not_gt cs = []"
  then show ?thesis
    by (cases cs; cases n) (auto split: if_splits)
next
  assume "dropWhile not_gt cs = []"
  then have "\<forall>x \<in> set (take n cs). not_gt x"
    by (auto simp: dropWhile_eq_Nil_conv dest: in_set_takeD)
  then show ?thesis by (simp add: dropWhile_eq_Nil_conv)
qed

lemma tag_free_take: "tag_free s \<Longrightarrow> tag_free (take n s)"
proof (induction s arbitrary: n)
  case Nil
  then show ?case by simp
next
  case (Cons c cs)
  show ?case
  proof (cases n)
    case 0
    then show ?thesis by simp
  next
    case (Suc m)
    with Cons head_free_take [of cs m] show ?thesis by (auto split: if_splits)
  qed
qed

lemma rstrip_take: "rstrip s = take (length (rstrip s)) s"
proof -
  have "rev s = takeWhile is_space (rev s) @ dropWhile is_space (rev s)"
    by simp
  then have "s = rev (dropWhile is_space (rev s)) @ rev (takeWhile is_space (rev s))"
    by (metis rev_append rev_rev_ident)
  then have "take (length (rev (dropWhile is_space (rev s)))) s = rev (dropWhile is_space (rev s))"
    by (metis append_eq_conv_conj)
  then show ?thesis by (simp add: rstrip_def)
qed

lemma tag_free_strip: "tag_free s \<Longrightarrow> tag_free (strip s)"
  unfolding strip_def lstrip_def
  using rstrip_take [of "dropWhile is_space s"] tag_free_take tag_free_dropWhile by metis

lemma tag_free_append:
  "tag_free s \<Longrightarrow> tag_free t \<Longrightarrow> \<forall>x \<in> set t. not_gt x \<Longrightarrow> tag_free (s @ t)"
proof (induction s)
  case Nil
  then show ?case by simp
next
  case (Cons c cs)
  have "takeWhile not_gt (cs @ t) = [] \<or> dropWhile not_gt (cs @ t) = []"
    if "takeWhile not_gt cs = [] \<or> dropWhile not_gt cs = []"
    using that
  proof
    assume "takeWhile not_gt cs = []"
    then show ?thesis
      using Cons.prems(3) by (cases cs) (auto simp: dropWhile_eq_Nil_conv split: if_splits)
  next
    assume "dropWhile not_gt cs = []"
    then show ?thesis
      using Cons.prems(3) by (auto simp: dropWhile_eq_Nil_conv)
  qed
  with Cons show ?case by (auto split: if_splits)
qed


lemma collapse_ws_space:
  "is_space c \<Longrightarrow> collapse_ws (c # cs) = CHR '' '' # collapse_ws (dropWhile is_space cs)"
  by simp

lemma collapse_ws_nonspace: "\<not> is_space c \<Longrightarrow> collapse_ws (c # cs) = c # collapse_ws cs"
  by simp

lemma is_space_blank: "is_space (CHR '' '')"
  by (simp add: is_space_def whitespace_chars_def)

lemma set_collapse_ws: "set (collapse_ws s) \<subseteq> insert (CHR '' '') (set s)"
proof (induction s rule: collapse_ws.induct)
  case 1
  then show ?case by simp
next
  case (2 c cs)
  show ?case
  proof (cases "is_space c")
    case True
    have "set (collapse_ws (dropWhile is_space cs)) \<subseteq> insert (CHR '' '') (set (dropWhile is_space cs))"
      using "2.IH"(1) True by blast
    also have "\<dots> \<subseteq> insert (CHR '' '') (set cs)"
      by (auto dest: set_dropWhileD)
    finally show ?thesis
      unfolding collapse_ws_space [OF True] by auto
  next
    case False
    have "set (collapse_ws cs) \<subseteq> insert (CHR '' '') (set cs)"
      using "2.IH"(2) False by blast
    then show ?thesis
      unfolding collapse_ws_nonspace [OF False] by auto
  qed
qed

lemma head_free_collapse_ws:
  assumes "takeWhile not_gt cs = [] \<or> dropWhile not_gt cs = []"
  shows "takeWhile not_gt (collapse_ws cs) = [] \<or> dropWhile not_gt (collapse_ws cs) = []"
  using assms
proof
  assume a: "takeWhile not_gt cs = []"
  show ?thesis
  proof (cases cs)
    case Nil
    then show ?thesis by simp
  next
    case (Cons d r)
    with a have "\<not> not_gt d" by (auto split: if_splits)
    then have "\<not> is_space d" using space_not_gt by blast
    with Cons \<open>\<not> not_gt d\<close> show ?thesis by simp
  qed
next
  assume "dropWhile not_gt cs = []"
  then have "\<forall>x \<in> set cs. not_gt x"
    by (simp add: dropWhile_eq_Nil_conv)
  moreover have "not_gt (CHR '' '')"
    by (simp add: not_gt_def)
  ultimately have "\<forall>x \<in> set (collapse_ws cs). not_gt x"
    using set_collapse_ws [of cs] by auto
  then show ?thesis by (simp add: dropWhile_eq_Nil_conv)
qed

lemma tag_free_collapse_ws: "tag_free s \<Longrightarrow> tag_free (collapse_ws s)"
proof (induction s rule: collapse_ws.induct)
  case 1
  then show ?case by simp
next
  case (2 c cs)
  from "2.prems" have tf: "tag_free cs" by simp
  show ?case
  proof (cases "is_space c")
    case True
    have "tag_free (collapse_ws (dropWhile is_space cs))"
      using "2.IH"(1) True tf tag_free_dropWhile by blast
    then show ?thesis
      unfolding collapse_ws_space [OF True] by simp
  next
    case False
    have "tag_free (collapse_ws cs)"
      using "2.IH"(2) False tf by blast
    moreover have "takeWhile not_gt (collapse_ws cs) = [] \<or> dropWhile not_gt (collapse_ws cs) = []"
      if "c = CHR ''<''"
      using that "2.prems" head_free_collapse_ws [of cs] by simp
    ultimately show ?thesis
      unfolding collapse_ws_nonspace [OF False] by simp
  qed
qed

lemma starts_nonspace_dropWhile: "starts_nonspace (dropWhile is_space s)"
  by (induction s) (auto simp: starts_nonspace_def)

lemma starts_nonspace_collapse_ws: "starts_nonspace s \<Longrightarrow> starts_nonspace (collapse_ws s)"
  by (cases s) (auto simp: starts_nonspace_def)

lemma starts_nonspace_take: "starts_nonspace s \<Longrightarrow> starts_nonspace (take n s)"
  by (cases s; cases n) (auto simp: starts_nonspace_def)

lemma starts_nonspace_append:
  "starts_nonspace s \<Longrightarrow> starts_nonspace t \<Longrightarrow> starts_nonspace (s @ t)"
  by (cases s) (auto simp: starts_nonspace_def)

lemma starts_nonspace_fixed: "starts_nonspace s \<Longrightarrow> dropWhile is_space s = s"
  by (cases s) (auto simp: starts_nonspace_def)

lemma ws_norm_collapse_ws: "ws_norm (collapse_ws s)"
proof (induction s rule: collapse_ws.induct)
  case 1
  then show ?case by simp
next
  case (2 c cs)
  show ?case
  proof (cases "is_space c")
    case True
    have "ws_norm (collapse_ws (dropWhile is_space cs))"
      using "2.IH"(1) True by blast
    moreover have "starts_nonspace (collapse_ws (dropWhile is_space cs))"
      by (rule starts_nonspace_collapse_ws) (rule starts_nonspace_dropWhile)
    ultimately show ?thesis
      unfolding collapse_ws_space [OF True] by simp
  next
    case False
    have "ws_norm (collapse_ws cs)"
      using "2.IH"(2) False by blast
    with False show ?thesis
      unfolding collapse_ws_nonspace [OF False] by simp
  qed
qed

lemma ws_norm_fixed: "ws_norm s \<Longrightarrow> collapse_ws s = s"
  by (induction s) (auto simp: starts_nonspace_fixed)

lemma ws_norm_dropWhile: "ws_norm s \<Longrightarrow> ws_norm (dropWhile P s)"
  by (induction s) auto

lemma ws_norm_take: "ws_norm s \<Longrightarrow> ws_norm (take n s)"
proof (induction s arbitrary: n)
  case Nil
  then show ?case by simp
next
  case (Cons c cs)
  then show ?case
    by (cases n) (auto simp: starts_nonspace_take)
qed

lemma ws_norm_append: "ws_norm s \<Longrightarrow> ws_norm t \<Longrightarrow> starts_nonspace t \<Longrightarrow> ws_norm (s @ t)"
  by (induction s) (auto simp: starts_nonspace_append)

lemma strip_normal:
  assumes "tag_free s" and "ws_norm s"
  shows "tag_free (strip s) \<and> ws_norm (strip s) \<and> starts_nonspace (strip s)"
proof -
  have e: "strip s = take (length (strip s)) (dropWhile is_space s)"
    unfolding strip_def lstrip_def by (rule rstrip_take)
  have "ws_norm (take (length (strip s)) (dropWhile is_space s))"
    by (rule ws_norm_take) (rule ws_norm_dropWhile [OF assms(2)])
  moreover have "starts_nonspace (take (length (strip s)) (dropWhile is_space s))"
    by (rule starts_nonspace_take) (rule starts_nonspace_dropWhile)
  ultimately show ?thesis
    using tag_free_strip [OF assms(1)] e by metis
qed

lemma ellipsis_normal:
  "tag_free ''...'' \<and> (\<forall>x \<in> set ''...''. not_gt x) \<and> ws_norm ''...'' \<and> starts_nonspace ''...''"
  by (simp add: not_gt_def starts_nonspace_def is_space_def whitespace_chars_def)

lemma clean_html_unfold:
  "clean_html h =
     (let c = strip (collapse_ws (strip_tags h))
      in if length c > 300 then take 300 c @ ''...'' else c)"
proof (cases "h = []")
  case True
  then show ?thesis
    by (simp add: clean_html_def strip_def lstrip_def rstrip_def)
next
  case False
  then show ?thesis
    by (simp add: clean_html_def)
qed

text \<open>C4, amended: the summary that \<open>clean_html\<close> returns has at most 303 characters: it
  is the cleaned text when that has at most 300 characters, and otherwise its first 300
  characters followed by the three-character ellipsis. It is HTML-stripped (no tag is
  left for \<open>strip_tags\<close> to remove), whitespace-collapsed (no run of whitespace is left for
  \<open>collapse_ws\<close> to replace) and has no leading whitespace.\<close>

theorem clean_html_stripped_collapsed_bounded:
  "length (clean_html h) \<le> 303
   \<and> clean_html h =
       (let c = strip (collapse_ws (strip_tags h))
        in if length c > 300 then take 300 c @ ''...'' else c)
   \<and> strip_tags (clean_html h) = clean_html h
   \<and> collapse_ws (clean_html h) = clean_html h
   \<and> lstrip (clean_html h) = clean_html h"
proof -
  let ?c = "strip (collapse_ws (strip_tags h))"
  have c: "tag_free ?c \<and> ws_norm ?c \<and> starts_nonspace ?c"
    by (rule strip_normal) (simp_all add: tag_free_collapse_ws tag_free_strip_tags ws_norm_collapse_ws)
  have r: "clean_html h = (if length ?c > 300 then take 300 ?c @ ''...'' else ?c)"
    using clean_html_unfold [of h] by (simp add: Let_def)
  have len: "length (clean_html h) \<le> 303"
    unfolding r by simp
  have n: "tag_free (clean_html h) \<and> ws_norm (clean_html h) \<and> starts_nonspace (clean_html h)"
  proof (cases "length ?c > 300")
    case True
    have "tag_free (take 300 ?c @ ''...'')"
      using c ellipsis_normal by (intro tag_free_append tag_free_take) simp_all
    moreover have "ws_norm (take 300 ?c @ ''...'')"
      using c ellipsis_normal by (intro ws_norm_append ws_norm_take) simp_all
    moreover have "starts_nonspace (take 300 ?c @ ''...'')"
      using c ellipsis_normal by (intro starts_nonspace_append starts_nonspace_take) simp_all
    ultimately show ?thesis
      unfolding r using True by simp
  next
    case False
    with c show ?thesis
      unfolding r by simp
  qed
  from n have "strip_tags (clean_html h) = clean_html h"
    and "collapse_ws (clean_html h) = clean_html h"
    and "lstrip (clean_html h) = clean_html h"
    by (simp_all add: tag_free_fixed ws_norm_fixed starts_nonspace_fixed lstrip_def)
  with len clean_html_unfold [of h] show ?thesis
    by blast
qed

text \<open>C4, as stated, fails: 301 letters give a summary of 303 characters, more than
  300.\<close>

theorem clean_html_303_counterexample:
  "length (clean_html (replicate 301 (CHR ''a''))) = 303"
  by code_simp

lemma clean_html_example:
  "clean_html (''<p>Hello,   <b>world</b>'' @ [CHR 0x0A] @ '' 1 < 2 </p>  '') = ''Hello, world 1''"
  by code_simp

section \<open>Properties of trend extraction\<close>

lemma counter_add_set_keys: "fst ` set (counter_add kvs w) = insert w (fst ` set kvs)"
proof (induction kvs)
  case Nil
  then show ?case by simp
next
  case (Cons kv kvs)
  obtain k n where kv: "kv = (k, n)" by (cases kv)
  show ?case
  proof (cases "k = w")
    case True
    then show ?thesis by (simp add: kv)
  next
    case False
    then show ?thesis using Cons.IH by (simp add: kv insert_commute)
  qed
qed

lemma counter_add_distinct:
  "distinct (map fst kvs) \<Longrightarrow> distinct (map fst (counter_add kvs w))"
proof (induction kvs)
  case Nil
  then show ?case by simp
next
  case (Cons kv kvs)
  obtain k n where kv: "kv = (k, n)" by (cases kv)
  show ?case
  proof (cases "k = w")
    case True
    with Cons.prems kv show ?thesis by simp
  next
    case False
    have "k \<notin> fst ` set (counter_add kvs w)"
      unfolding counter_add_set_keys using False Cons.prems kv by auto
    with False Cons kv show ?thesis by simp
  qed
qed

lemma counter_add_map_of:
  "map_of (counter_add kvs w) k =
     (if k = w then Some (case map_of kvs w of None \<Rightarrow> 1 | Some n \<Rightarrow> n + 1) else map_of kvs k)"
proof (induction kvs)
  case Nil
  then show ?case by simp
next
  case (Cons kv kvs)
  obtain k' n where kv: "kv = (k', n)" by (cases kv)
  show ?case using Cons.IH by (auto simp: kv)
qed

lemma foldl_counter_distinct:
  "distinct (map fst kvs) \<Longrightarrow> distinct (map fst (foldl counter_add kvs ws))"
  by (induction ws arbitrary: kvs) (auto simp: counter_add_distinct)

lemma foldl_counter_map_of:
  "map_of (foldl counter_add kvs ws) k =
     (if k \<in> set ws
      then Some (count_list ws k + (case map_of kvs k of None \<Rightarrow> 0 | Some n \<Rightarrow> n))
      else map_of kvs k)"
proof (induction ws arbitrary: kvs)
  case Nil
  then show ?case by simp
next
  case (Cons w ws)
  show ?case
    by (simp add: Cons.IH counter_add_map_of split: option.splits)
qed

lemma Counter_distinct: "distinct (map fst (Counter ws))"
  by (simp add: Counter_def foldl_counter_distinct)

lemma Counter_mem: "(k, c) \<in> set (Counter ws) \<longleftrightarrow> k \<in> set ws \<and> c = count_list ws k"
proof -
  have "(k, c) \<in> set (Counter ws) \<longleftrightarrow> map_of (Counter ws) k = Some c"
    using Counter_distinct by (simp add: map_of_eq_Some_iff)
  also have "\<dots> \<longleftrightarrow> k \<in> set ws \<and> c = count_list ws k"
    by (auto simp: Counter_def foldl_counter_map_of)
  finally show ?thesis .
qed

lemma distinct_map_insort_key:
  "distinct (map g (insort_key f x xs)) = (g x \<notin> g ` set xs \<and> distinct (map g xs))"
  by (induction xs) (auto simp: set_insort_key)

lemma distinct_map_sort_key: "distinct (map g (sort_key f xs)) = distinct (map g xs)"
  by (induction xs) (simp_all add: distinct_map_insort_key)

lemma keyword_ranking_mem:
  "(k, c) \<in> set (keyword_ranking articles)
     \<longleftrightarrow> k \<in> set (keywords_of articles) \<and> c = count_list (keywords_of articles) k"
  by (simp add: keyword_ranking_def Counter_mem)

lemma keyword_ranking_distinct: "distinct (map fst (keyword_ranking articles))"
  by (simp add: keyword_ranking_def distinct_map_sort_key Counter_distinct)

lemma keyword_ranking_sorted:
  "sorted_wrt (\<lambda>a b. snd b \<le> snd a) (keyword_ranking articles)"
proof -
  have "sorted (map (\<lambda>kv. - int (snd kv)) (keyword_ranking articles))"
    by (simp add: keyword_ranking_def)
  then show ?thesis
    by (simp add: sorted_map)
qed

lemma comprehension_map_filter:
  "concat (map (\<lambda>x. if P x then [f x] else []) xs) = map f (filter P xs)"
  by (induction xs) auto

lemma extract_trends_map_filter:
  "extract_trends articles max_trends =
     (if articles = [] then []
      else map (make_trend articles)
             (filter (\<lambda>kc. length (fst kc) > 3 \<and> snd kc > 1)
                (take (nat max_trends) (keyword_ranking articles))))"
  by (simp add: extract_trends_def Let_def most_common_def keyword_ranking_def keywords_of_def
      extract_keywords_from_text_def comprehension_map_filter)

lemma make_trend_fields:
  "trend_title (make_trend articles kc) = title_case (fst kc)"
  "frequency (make_trend articles kc) = snd kc"
  by (simp_all add: make_trend_def Let_def)

lemma extract_trends_pairs:
  assumes "articles \<noteq> []"
  shows "map (\<lambda>t. (trend_title t, frequency t)) (extract_trends articles max_trends)
         = [(title_case (fst kc), snd kc).
              kc \<leftarrow> take (nat max_trends) (keyword_ranking articles),
              length (fst kc) > 3 \<and> snd kc > 1]"
  using assms
  by (simp add: extract_trends_map_filter comprehension_map_filter make_trend_fields comp_def)

lemma length_extract_trends: "length (extract_trends articles max_trends) \<le> nat max_trends"
proof -
  have "length (filter P (take n xs)) \<le> n" for P n and xs :: "(string \<times> nat) list"
    using length_filter_le [of P "take n xs"] by simp
  then show ?thesis
    by (simp add: extract_trends_map_filter)
qed

lemma extract_trends_qualify:
  assumes "t \<in> set (extract_trends articles max_trends)"
  shows "\<exists>k \<in> set (keywords_of articles).
           trend_title t = title_case k \<and> frequency t = count_list (keywords_of articles) k
           \<and> length k > 3 \<and> frequency t > 1"
proof -
  from assms obtain kc where
    kc: "kc \<in> set (take (nat max_trends) (keyword_ranking articles))"
    and q: "length (fst kc) > 3" "snd kc > 1"
    and t: "t = make_trend articles kc"
    by (auto simp: extract_trends_map_filter split: if_splits)
  from kc have "(fst kc, snd kc) \<in> set (keyword_ranking articles)"
    by (auto dest: in_set_takeD)
  then have "fst kc \<in> set (keywords_of articles)"
    and "snd kc = count_list (keywords_of articles) (fst kc)"
    unfolding keyword_ranking_mem by simp_all
  with q t show ?thesis
    by (auto simp: make_trend_fields)
qed

lemma title_case_blockchain: "title_case ''blockchain'' = ''Blockchain''"
  by code_simp

lemma extract_trends_blockchain:
  assumes ne: "articles \<noteq> []" and n: "0 < max_trends"
    and four: "count_list (keywords_of articles) ''blockchain'' = 4"
    and rest: "\<forall>w \<in> set (keywords_of articles). w \<noteq> ''blockchain''
                 \<longrightarrow> count_list (keywords_of articles) w \<le> 1"
  shows "\<exists>t \<in> set (extract_trends articles max_trends).
           trend_title t = ''Blockchain'' \<and> frequency t = 4"
proof -
  let ?ws = "keywords_of articles"
  let ?r = "keyword_ranking articles"
  have "''blockchain'' \<in> set ?ws"
    using four by (metis count_list_0_iff zero_neq_numeral)
  with four have m: "(''blockchain'', 4) \<in> set ?r"
    by (simp add: keyword_ranking_mem)
  then obtain x xs where r: "?r = x # xs"
    by (cases ?r) auto
  have "x = (''blockchain'', 4)"
  proof (rule ccontr)
    assume d: "x \<noteq> (''blockchain'', 4)"
    with m r have "(''blockchain'', 4) \<in> set xs" by auto
    moreover have "\<forall>y \<in> set xs. snd y \<le> snd x"
      using keyword_ranking_sorted [of articles] unfolding r by simp
    ultimately have big: "4 \<le> snd x" by fastforce
    have "(fst x, snd x) \<in> set ?r" unfolding r by simp
    then have k: "fst x \<in> set ?ws" and c: "snd x = count_list ?ws (fst x)"
      unfolding keyword_ranking_mem by simp_all
    show False
    proof (cases "fst x = ''blockchain''")
      case True
      with c four have "snd x = 4" by simp
      with True d show False by (cases x) simp
    next
      case False
      with rest k c have "snd x \<le> 1" by simp
      with big show False by simp
    qed
  qed
  with r n have "(''blockchain'', 4) \<in> set (take (nat max_trends) ?r)"
    by (cases "nat max_trends") auto
  then have "make_trend articles (''blockchain'', 4) \<in> set (extract_trends articles max_trends)"
    using ne by (simp add: extract_trends_map_filter)
  then show ?thesis
    by (rule rev_bexI) (simp add: make_trend_fields title_case_blockchain)
qed


lemma keyword_ranking_most_common:
  "most_common (extract_keywords_from_text (all_text articles)) max_trends
     = take (nat max_trends) (keyword_ranking articles)"
  by (simp add: most_common_def keyword_ranking_def keywords_of_def
      extract_keywords_from_text_def Let_def)

text \<open>C5, amended: \<open>extract_trends\<close> ranks the keywords of the articles by frequency (each
  keyword once, with its number of occurrences, the more frequent first), takes the first
  \<open>max_trends\<close> entries of this ranking and returns, in their order, one trend for each of
  these entries whose keyword has more than 3 letters and occurs more than once, each
  record carrying the title-cased keyword and its frequency. Hence there are at most
  \<open>max_trends\<close> trends, and a word that occurs once or has at most 3 letters never appears.
  With \<open>blockchain\<close> occurring 4 times, no other keyword more than once and a positive
  \<open>max_trends\<close>, the output has a trend titled \<open>Blockchain\<close> with frequency 4.\<close>

theorem extract_trends_top_ranked_qualifying:
  "most_common (extract_keywords_from_text (all_text articles)) max_trends
     = take (nat max_trends) (keyword_ranking articles)
   \<and> distinct (map fst (keyword_ranking articles))
   \<and> (\<forall>k c. (k, c) \<in> set (keyword_ranking articles)
          \<longleftrightarrow> k \<in> set (keywords_of articles) \<and> c = count_list (keywords_of articles) k)
   \<and> sorted_wrt (\<lambda>a b. snd b \<le> snd a) (keyword_ranking articles)
   \<and> (articles \<noteq> [] \<longrightarrow>
        map (\<lambda>t. (trend_title t, frequency t)) (extract_trends articles max_trends)
          = [(title_case (fst kc), snd kc).
               kc \<leftarrow> take (nat max_trends) (keyword_ranking articles),
               length (fst kc) > 3 \<and> snd kc > 1])
   \<and> length (extract_trends articles max_trends) \<le> nat max_trends
   \<and> (\<forall>t \<in> set (extract_trends articles max_trends).
         \<exists>k \<in> set (keywords_of articles).
           trend_title t = title_case k \<and> frequency t = count_list (keywords_of articles) k
           \<and> length k > 3 \<and> frequency t > 1)
   \<and> (articles \<noteq> [] \<and> 0 < max_trends
        \<and> count_list (keywords_of articles) ''blockchain'' = 4
        \<and> (\<forall>w \<in> set (keywords_of articles). w \<noteq> ''blockchain''
               \<longrightarrow> count_list (keywords_of articles) w \<le> 1)
        \<longrightarrow> (\<exists>t \<in> set (extract_trends articles max_trends).
               trend_title t = ''Blockchain'' \<and> frequency t = 4))"
  using keyword_ranking_most_common [of articles max_trends]
    keyword_ranking_distinct [of articles] keyword_ranking_mem [of _ _ articles]
    keyword_ranking_sorted [of articles] extract_trends_pairs [of articles max_trends]
    length_extract_trends [of articles max_trends]
    extract_trends_qualify [of _ articles max_trends]
    extract_trends_blockchain [of articles max_trends]
  by (intro conjI allI impI ballI) blast+

text \<open>C5, as stated, fails: with \<open>max_trends = 1\<close> the only entry taken from the ranking is
  the three-letter word \<open>app\<close>, so \<open>blockchain\<close>, which has 10 letters and occurs twice, gets
  no trend although it qualifies and no other trend is returned.\<close>

theorem extract_trends_skips_qualifying_counterexample:
  "count_list (keywords_of demo_apps) ''blockchain'' = 2
   \<and> length ''blockchain'' = 10
   \<and> keyword_ranking demo_apps = [(''app'', 3), (''blockchain'', 2)]
   \<and> extract_trends demo_apps 1 = []"
  by code_simp

theorem extract_trends_top_ranked_qualifying_witness:
  "map (\<lambda>t. (trend_title t, frequency t)) (extract_trends demo_chain 5) = [(''Blockchain'', 4)]
   \<and> count_list (keywords_of demo_chain) ''blockchain'' = 4
   \<and> list_ex (\<lambda>t. trend_title t = ''Blockchain'' \<and> frequency t = 4) (extract_trends demo_chain 5)"
proof -
  have ne: "demo_chain \<noteq> []"
    by (simp add: demo_chain_def)
  have four: "count_list (keywords_of demo_chain) ''blockchain'' = 4"
    by code_simp
  have rest: "\<forall>w \<in> set (keywords_of demo_chain). w \<noteq> ''blockchain''
                \<longrightarrow> count_list (keywords_of demo_chain) w \<le> 1"
    by code_simp
  have e: "map (\<lambda>t. (trend_title t, frequency t)) (extract_trends demo_chain 5) = [(''Blockchain'', 4)]"
    by code_simp
  from extract_trends_top_ranked_qualifying [of demo_chain 5] ne four rest
  have "\<exists>t \<in> set (extract_trends demo_chain 5). trend_title t = ''Blockchain'' \<and> frequency t = 4"
    by simp
  then have "list_ex (\<lambda>t. trend_title t = ''Blockchain'' \<and> frequency t = 4) (extract_trends demo_chain 5)"
    by (simp only: list_ex_iff)
  with e four show ?thesis by blast
qed

end
